theory Spec2Isabelle
  imports Complex_Main "HOL-Library.Log_Nat" "HOL-Library.Multiset"
begin

section \<open>Python floats\<close>

text \<open>
  A Python \<^verbatim>\<open>float\<close> is an IEEE 754 double: a finite value, which is a rational
  number, an infinity or a NaN. The sign of a zero is not kept: no operation of the
  program tells the two zeros apart (a division by either raises).
\<close>

datatype pyfloat = Fin rat | PInf | NInf | NaN

text \<open>\<open>pow2 e\<close> is \<open>2\<close> to the power \<open>e\<close>, for an exponent of either sign.\<close>

definition pow2 :: "int \<Rightarrow> rat" where
  "pow2 e = (if 0 \<le> e then 2 ^ nat e else 1 / 2 ^ nat (- e))"

text \<open>
  \<open>ilog2 a\<close> is the binary exponent of a positive rational, the \<open>k\<close> with
  \<open>pow2 k \<le> a < pow2 (k + 1)\<close>, computed from the bit length of an integer.
\<close>

definition ilog2 :: "rat \<Rightarrow> int" where
  "ilog2 a = (if 1 \<le> a then bitlen \<lfloor>a\<rfloor> - 1 else - bitlen (\<lceil>1 / a\<rceil> - 1))"

text \<open>Rounding to the nearest integer, a tie going to the even one.\<close>

definition round_half_even :: "rat \<Rightarrow> int" where
  "round_half_even x =
    (let f = \<lfloor>x\<rfloor>; r = x - of_int f
     in if r < 1 / 2 then f else if 1 / 2 < r then f + 1 else if even f then f else f + 1)"

text \<open>
  The double nearest to a rational, ties to even: every arithmetic operation on floats,
  the conversion of an \<^verbatim>\<open>int\<close> and a float literal round their exact result this way.
  The significand has 53 bits, the least exponent of a unit in the last place is
  \<open>-1074\<close> (below it the value is subnormal or rounds to zero), and a result of
  magnitude \<open>2 ^ 1024\<close> or more is an infinity.
\<close>

definition round_float :: "rat \<Rightarrow> pyfloat" where
  "round_float x =
    (if x = 0 then Fin 0
     else
      (let a = \<bar>x\<bar>;
           e = max (ilog2 a - 52) (- 1074);
           m = round_half_even (a / pow2 e);
           r = of_int m * pow2 e
       in if 2 ^ 1024 \<le> r then (if 0 < x then PInf else NInf)
          else Fin (if 0 < x then r else - r)))"

text \<open>Subtraction, multiplication and comparison of floats, which never raise.\<close>

fun fsub :: "pyfloat \<Rightarrow> pyfloat \<Rightarrow> pyfloat" where
  "fsub NaN y = NaN"
| "fsub x NaN = NaN"
| "fsub (Fin a) (Fin b) = round_float (a - b)"
| "fsub (Fin a) PInf = NInf"
| "fsub (Fin a) NInf = PInf"
| "fsub PInf PInf = NaN"
| "fsub PInf y = PInf"
| "fsub NInf NInf = NaN"
| "fsub NInf y = NInf"

fun fmul :: "pyfloat \<Rightarrow> pyfloat \<Rightarrow> pyfloat" where
  "fmul NaN y = NaN"
| "fmul x NaN = NaN"
| "fmul (Fin a) (Fin b) = round_float (a * b)"
| "fmul (Fin a) y = (if a = 0 then NaN else if (0 < a) = (y = PInf) then PInf else NInf)"
| "fmul x (Fin b) = (if b = 0 then NaN else if (0 < b) = (x = PInf) then PInf else NInf)"
| "fmul x y = (if x = y then PInf else NInf)"

fun fle :: "pyfloat \<Rightarrow> pyfloat \<Rightarrow> bool" where
  "fle NaN y = False"
| "fle x NaN = False"
| "fle NInf y = True"
| "fle x PInf = True"
| "fle (Fin a) (Fin b) = (a \<le> b)"
| "fle x y = False"

section \<open>Text of numbers\<close>

text \<open>The decimal text of a number, as an f-string formats an \<^verbatim>\<open>int\<close>.\<close>

fun str_nat :: "nat \<Rightarrow> string" where
  "str_nat n =
    (if n < 10 then [''0123456789'' ! n]
     else str_nat (n div 10) @ [''0123456789'' ! (n mod 10)])"

declare str_nat.simps [simp del]

definition str_int :: "int \<Rightarrow> string" where
  "str_int i = (if i < 0 then CHR ''-'' # str_nat (nat (- i)) else str_nat (nat i))"

section \<open>The outside world\<close>

text \<open>
  What \<^verbatim>\<open>ffmpeg.probe\<close> returns, with the fields \<^verbatim>\<open>get_video_info\<close> reads already
  parsed: the streams with their \<^verbatim>\<open>codec_type\<close>, \<^verbatim>\<open>width\<close> and \<^verbatim>\<open>height\<close>, and of
  \<^verbatim>\<open>format\<close> the \<^verbatim>\<open>duration\<close> as the float that \<^verbatim>\<open>float(...)\<close> makes of its text, and
  the optional \<^verbatim>\<open>bit_rate\<close> (bits per second).
\<close>

record Stream =
  codec_type :: string
  stream_width :: int
  stream_height :: int

record ProbeResult =
  streams :: "Stream list"
  format_duration :: pyfloat
  format_bit_rate :: "int option"

text \<open>
  One invocation of the transcoder. The fields are the arguments that vary between the
  three argument lists of the source: \<^verbatim>\<open>-i\<close>, \<^verbatim>\<open>-vf\<close>, \<^verbatim>\<open>-b:v\<close> (in kbit/s),
  \<^verbatim>\<open>-pass\<close> (absent in the single-pass list), \<^verbatim>\<open>-preset\<close>, \<^verbatim>\<open>-b:a\<close> (\<open>None\<close> for
  \<^verbatim>\<open>-an\<close>) and the output path. The constant arguments (\<^verbatim>\<open>-y\<close>, the codecs, the
  container flags) are left out.
\<close>

record FfmpegCmd =
  cmd_input :: string
  cmd_vf :: string
  cmd_video_kbps :: int
  cmd_pass :: "nat option"
  cmd_preset :: string
  cmd_audio_kbps :: "int option"
  cmd_output :: string

text \<open>
  The exceptions the modelled functions raise, all of them subclasses of
  \<^verbatim>\<open>Exception\<close>. \<open>KeyError\<close> carries the offending preset name, \<open>ProbeError\<close> stands
  for \<^verbatim>\<open>ffmpeg.Error\<close> of the prober, \<open>ValueError\<close> for the missing video stream and
  for the integer of a NaN, \<open>OverflowError\<close> for an \<^verbatim>\<open>int\<close> too large for a float
  and for the integer of an infinity, \<open>CalledProcessError\<close> carries the command whose
  process exited non-zero, \<open>FileNotFoundError\<close> and \<open>SameFileError\<close> come from the file
  operations, and \<open>AttributeError\<close> from a widget that was never built.
\<close>

datatype error =
    KeyError string
  | ProbeError string
  | ValueError string
  | ZeroDivisionError
  | OverflowError
  | CalledProcessError FfmpegCmd
  | FileNotFoundError string
  | SameFileError string
  | AttributeError string

text \<open>
  The float operations that can raise. An \<^verbatim>\<open>int\<close> is converted to the nearest
  double, and the true division of two \<^verbatim>\<open>int\<close>s is rounded once; both raise
  \<^verbatim>\<open>OverflowError\<close> where the result would be an infinity (\<open>finite_or_overflow\<close>).
  The division by a float tests the divisor for zero first and otherwise follows
  IEEE 754. \<^verbatim>\<open>int(x)\<close> of a float truncates towards zero and raises on an infinity
  and on a NaN.
\<close>

definition finite_or_overflow :: "pyfloat \<Rightarrow> error + pyfloat" where
  "finite_or_overflow x = (case x of Fin a \<Rightarrow> Inr (Fin a) | _ \<Rightarrow> Inl OverflowError)"

definition float_of_int :: "int \<Rightarrow> error + pyfloat" where
  "float_of_int n = finite_or_overflow (round_float (of_int n))"

fun fdiv :: "pyfloat \<Rightarrow> pyfloat \<Rightarrow> error + pyfloat" where
  "fdiv x (Fin b) =
    (if b = 0 then Inl ZeroDivisionError
     else (case x of
             Fin a \<Rightarrow> Inr (round_float (a / b))
           | PInf \<Rightarrow> Inr (if 0 < b then PInf else NInf)
           | NInf \<Rightarrow> Inr (if 0 < b then NInf else PInf)
           | NaN \<Rightarrow> Inr NaN))"
| "fdiv x NaN = Inr NaN"
| "fdiv NaN y = Inr NaN"
| "fdiv (Fin a) y = Inr (Fin 0)"
| "fdiv x y = Inr NaN"

definition py_int :: "pyfloat \<Rightarrow> error + int" where
  "py_int x =
    (case x of
       Fin a \<Rightarrow> Inr (if 0 \<le> a then \<lfloor>a\<rfloor> else \<lceil>a\<rceil>)
     | NaN \<Rightarrow> Inl (ValueError ''cannot convert float NaN to integer'')
     | _ \<Rightarrow> Inl OverflowError)"

text \<open>
  The external calls a run makes, in order: \<^verbatim>\<open>shutil.copy\<close> and the subprocesses.
\<close>

datatype call = Copy string string | Ffmpeg FfmpegCmd

text \<open>
  The world a job runs in: the files on disk (path to size in bytes) and the external
  calls made so far.
\<close>

record world =
  files :: "string \<Rightarrow> nat option"
  calls :: "call list"

text \<open>
  The external tools, which the repository does not contain: the prober (\<open>None\<close> when
  it fails), the transcoder (whether the process exited with status 0, and the files
  it leaves behind), and \<^verbatim>\<open>os.name\<close>.
\<close>

record env =
  probe :: "string \<Rightarrow> ProbeResult option"
  ffmpeg :: "FfmpegCmd \<Rightarrow> (string \<Rightarrow> nat option) \<Rightarrow> bool \<times> (string \<Rightarrow> nat option)"
  os_name :: string

section \<open>File utilities (app/utils.py)\<close>

text \<open>
  \<^verbatim>\<open>get_file_size_mb\<close>: \<^verbatim>\<open>os.path.getsize(filepath) / (1024 * 1024)\<close>, the true
  division of two \<^verbatim>\<open>int\<close>s.
\<close>

definition get_file_size_mb :: "world \<Rightarrow> string \<Rightarrow> error + pyfloat" where
  "get_file_size_mb w filepath =
    (case files w filepath of
       None \<Rightarrow> Inl (FileNotFoundError filepath)
     | Some n \<Rightarrow> finite_or_overflow (round_float (of_nat n / (1024 * 1024))))"

text \<open>
  \<^verbatim>\<open>os.path.splitext\<close> of \<^verbatim>\<open>posixpath\<close>: the extension starts at the last dot of the
  last path component, unless only dots precede it there. \<open>rfind\<close> is \<^verbatim>\<open>str.rfind\<close> of
  one character, \<open>-1\<close> when it does not occur.
\<close>

definition rfind :: "char \<Rightarrow> string \<Rightarrow> int" where
  "rfind c p =
    (if c \<in> set p then int (length p) - 1 - int (length (takeWhile (\<lambda>x. x \<noteq> c) (rev p)))
     else - 1)"

definition splitext :: "string \<Rightarrow> string \<times> string" where
  "splitext p =
    (let sepIndex = rfind (CHR ''/'') p;
         dotIndex = rfind (CHR ''.'') p;
         filename = take (nat dotIndex - nat (sepIndex + 1)) (drop (nat (sepIndex + 1)) p)
     in if dotIndex > sepIndex \<and> list_ex (\<lambda>c. c \<noteq> CHR ''.'') filename
        then (take (nat dotIndex) p, drop (nat dotIndex) p)
        else (p, []))"

text \<open>
  \<^verbatim>\<open>output_filename\<close>. \<^verbatim>\<open>os.path.exists\<close> is membership in the list \<open>existing\<close> of the
  paths on disk. The \<^verbatim>\<open>while True\<close> loop over the counter is \<open>output_filename_loop\<close>;
  it ends because a directory holds finitely many names, each of bounded length.
\<close>

definition longest :: "string list \<Rightarrow> nat" where
  "longest existing = foldr (\<lambda>p m. max (length p) m) existing 0"

function output_filename_loop :: "string list \<Rightarrow> string \<Rightarrow> string \<Rightarrow> nat \<Rightarrow> string" where
  "output_filename_loop existing base ext counter =
    (let new_path = base @ ''_'' @ str_nat counter @ ext
     in if new_path \<notin> set existing then new_path
        else output_filename_loop existing base ext (counter + 1))"
  by pat_completeness auto
termination
proof (relation "measure (\<lambda>(existing, base, ext, counter). 10 ^ longest existing - counter)")
  show "wf (measure (\<lambda>(existing, base, ext, counter). 10 ^ longest existing - counter))"
    by simp
next
  fix existing :: "string list" and base ext :: string and counter :: nat and new_path :: string
  assume np: "new_path = base @ ''_'' @ str_nat counter @ ext"
    and ex: "\<not> new_path \<notin> set existing"
  have digits: "n < 10 ^ length (str_nat n)" for n
  proof (induction n rule: str_nat.induct)
    case (1 n)
    show ?case
    proof (cases "n < 10")
      case True
      then show ?thesis by (subst str_nat.simps) simp
    next
      case False
      with 1 have "n div 10 < 10 ^ length (str_nat (n div 10))" by simp
      then have "n < 10 * 10 ^ length (str_nat (n div 10))" by linarith
      with False show ?thesis by (subst str_nat.simps) simp
    qed
  qed
  have bound: "p \<in> set ps \<Longrightarrow> length p \<le> longest ps" for p :: string and ps
    by (induction ps) (auto simp: longest_def)
  have "length (str_nat counter) \<le> length new_path" by (simp add: np)
  also have "\<dots> \<le> longest existing" using ex bound by blast
  finally have "(10::nat) ^ length (str_nat counter) \<le> 10 ^ longest existing"
    by (simp add: power_increasing)
  with digits [of counter] have "counter < 10 ^ longest existing" by linarith
  then show "((existing, base, ext, counter + 1), (existing, base, ext, counter))
      \<in> measure (\<lambda>(existing, base, ext, counter). 10 ^ longest existing - counter)"
    by simp
qed

declare output_filename_loop.simps [simp del]

definition output_filename :: "string list \<Rightarrow> string \<Rightarrow> string" where
  "output_filename existing path =
    (if path \<notin> set existing then path
     else (case splitext path of (base, ext) \<Rightarrow> output_filename_loop existing base ext 1))"

section \<open>Preset table (app/presets.py)\<close>

text \<open>
  \<^verbatim>\<open>PresetConfig\<close> is a typed dictionary with four keys. The three multipliers of the
  table (1.0, 0.75, 0.5) are doubles as they stand.
\<close>

record PresetConfig =
  max_height :: int
  video_kbps_mult :: pyfloat
  crf :: int
  preset :: string

text \<open>
  \<^verbatim>\<open>PRESETS\<close> is a module-level dictionary literal. Python dictionaries keep insertion
  order, so it is an association list; no function of the module assigns to it.
\<close>

definition PRESETS :: "(string \<times> PresetConfig) list" where
  "PRESETS =
    [(''light'',  \<lparr>max_height = 1080, video_kbps_mult = Fin 1,       crf = 20, preset = ''slow''\<rparr>),
     (''medium'', \<lparr>max_height = 720,  video_kbps_mult = Fin (3 / 4), crf = 23, preset = ''slow''\<rparr>),
     (''strong'', \<lparr>max_height = 480,  video_kbps_mult = Fin (1 / 2), crf = 28, preset = ''medium''\<rparr>)]"

text \<open>
  \<^verbatim>\<open>get_preset\<close>: membership test on the keys, \<^verbatim>\<open>KeyError\<close> when absent, else the
  stored value. The case \<open>None\<close> of the lookup cannot occur after the membership test;
  it is given the same error.
\<close>

definition get_preset :: "string \<Rightarrow> error + PresetConfig" where
  "get_preset preset_name =
    (if preset_name \<notin> set (map fst PRESETS) then Inl (KeyError preset_name)
     else (case map_of PRESETS preset_name of
             None \<Rightarrow> Inl (KeyError preset_name)
           | Some cfg \<Rightarrow> Inr cfg))"

text \<open>\<^verbatim>\<open>list_presets\<close>: \<^verbatim>\<open>list(PRESETS.keys())\<close>.\<close>

definition list_presets :: "string list" where
  "list_presets = map fst PRESETS"

section \<open>Compression (app/compressor.py)\<close>

text \<open>
  \<^verbatim>\<open>get_video_info\<close>: probe the file, take the first stream whose \<^verbatim>\<open>codec_type\<close> is
  \<^verbatim>\<open>video\<close> (\<^verbatim>\<open>ValueError\<close> when there is none), read width, height and duration,
  the bit rate in kbit/s by floor division (\<open>0\<close> when the prober gives none), and the
  size of the file.
\<close>

definition get_video_info ::
  "env \<Rightarrow> world \<Rightarrow> string \<Rightarrow> error + (int \<times> int \<times> pyfloat \<times> int \<times> pyfloat)" where
  "get_video_info e w path =
    (case probe e path of
       None \<Rightarrow> Inl (ProbeError path)
     | Some pr \<Rightarrow>
        (case find (\<lambda>s. codec_type s = ''video'') (streams pr) of
           None \<Rightarrow> Inl (ValueError path)
         | Some video_stream \<Rightarrow>
            (let width = stream_width video_stream;
                 height = stream_height video_stream;
                 duration = format_duration pr;
                 bitrate = (case format_bit_rate pr of None \<Rightarrow> 0 | Some b \<Rightarrow> b) div 1000
             in case get_file_size_mb w path of
                  Inl err \<Rightarrow> Inl err
                | Inr size_mb \<Rightarrow> Inr (width, height, duration, bitrate, size_mb))))"

text \<open>
  \<^verbatim>\<open>subprocess.run(cmd, check=True)\<close>: the call is recorded, the transcoder changes
  the files, and a non-zero exit status raises \<^verbatim>\<open>CalledProcessError\<close>.
\<close>

definition subprocess_run :: "env \<Rightarrow> world \<Rightarrow> FfmpegCmd \<Rightarrow> (error + unit) \<times> world" where
  "subprocess_run e w cmd =
    (case ffmpeg e cmd (files w) of
       (ok, fs) \<Rightarrow>
        (let w1 = \<lparr>files = fs, calls = calls w @ [Ffmpeg cmd]\<rparr>
         in if ok then (Inr (), w1) else (Inl (CalledProcessError cmd), w1)))"

text \<open>
  \<^verbatim>\<open>shutil.copy(src, dst)\<close>: the call is recorded; a missing source and a destination
  that is the source raise, otherwise the destination gets the source's content.
\<close>

definition shutil_copy :: "world \<Rightarrow> string \<Rightarrow> string \<Rightarrow> (error + unit) \<times> world" where
  "shutil_copy w src dst =
    (let w1 = w\<lparr>calls := calls w @ [Copy src dst]\<rparr>
     in case files w src of
          None \<Rightarrow> (Inl (FileNotFoundError src), w1)
        | Some n \<Rightarrow>
           if src = dst then (Inl (SameFileError src), w1)
           else (Inr (), w1\<lparr>files := (files w)(dst \<mapsto> n)\<rparr>))"

text \<open>
  The three argument lists: \<^verbatim>\<open>cmd_pass1\<close> (no audio, output to the null device) and
  \<^verbatim>\<open>cmd_pass2\<close> of \<^verbatim>\<open>_two_pass_encode\<close>, and \<^verbatim>\<open>cmd\<close> of \<^verbatim>\<open>_one_pass_encode\<close>.
\<close>

definition cmd_pass1 :: "string \<Rightarrow> string \<Rightarrow> int \<Rightarrow> string \<Rightarrow> string \<Rightarrow> FfmpegCmd" where
  "cmd_pass1 input_file scale_filter video_kbps preset_speed null_device =
    \<lparr>cmd_input = input_file, cmd_vf = scale_filter, cmd_video_kbps = video_kbps,
     cmd_pass = Some 1, cmd_preset = preset_speed, cmd_audio_kbps = None,
     cmd_output = null_device\<rparr>"

definition cmd_pass2 :: "string \<Rightarrow> string \<Rightarrow> string \<Rightarrow> int \<Rightarrow> int \<Rightarrow> string \<Rightarrow> FfmpegCmd" where
  "cmd_pass2 input_file output_file scale_filter video_kbps audio_kbps preset_speed =
    \<lparr>cmd_input = input_file, cmd_vf = scale_filter, cmd_video_kbps = video_kbps,
     cmd_pass = Some 2, cmd_preset = preset_speed, cmd_audio_kbps = Some audio_kbps,
     cmd_output = output_file\<rparr>"

definition cmd_single :: "string \<Rightarrow> string \<Rightarrow> string \<Rightarrow> int \<Rightarrow> int \<Rightarrow> string \<Rightarrow> FfmpegCmd" where
  "cmd_single input_file output_file scale_filter video_kbps audio_kbps preset_speed =
    \<lparr>cmd_input = input_file, cmd_vf = scale_filter, cmd_video_kbps = video_kbps,
     cmd_pass = None, cmd_preset = preset_speed, cmd_audio_kbps = Some audio_kbps,
     cmd_output = output_file\<rparr>"

definition null_device :: "env \<Rightarrow> string" where
  "null_device e = (if os_name e = ''nt'' then ''NUL'' else ''/dev/null'')"

text \<open>
  \<^verbatim>\<open>_two_pass_encode\<close>: the analysis pass, then the encoding pass; a failing first pass
  raises before the second is started.
\<close>

definition two_pass_encode ::
  "env \<Rightarrow> world \<Rightarrow> string \<Rightarrow> string \<Rightarrow> string \<Rightarrow> int \<Rightarrow> int \<Rightarrow> string \<Rightarrow> (error + unit) \<times> world" where
  "two_pass_encode e w input_file output_file scale_filter video_kbps audio_kbps preset_speed =
    (case subprocess_run e w
            (cmd_pass1 input_file scale_filter video_kbps preset_speed (null_device e)) of
       (Inl err, w1) \<Rightarrow> (Inl err, w1)
     | (Inr u, w1) \<Rightarrow>
        subprocess_run e w1
          (cmd_pass2 input_file output_file scale_filter video_kbps audio_kbps preset_speed))"

text \<open>\<^verbatim>\<open>_one_pass_encode\<close>: one invocation, with audio and without \<^verbatim>\<open>-pass\<close>.\<close>

definition one_pass_encode ::
  "env \<Rightarrow> world \<Rightarrow> string \<Rightarrow> string \<Rightarrow> string \<Rightarrow> int \<Rightarrow> int \<Rightarrow> string \<Rightarrow> (error + unit) \<times> world" where
  "one_pass_encode e w input_file output_file scale_filter video_kbps audio_kbps preset_speed =
    subprocess_run e w
      (cmd_single input_file output_file scale_filter video_kbps audio_kbps preset_speed)"

text \<open>
  The two statements \<^verbatim>\<open>shutil.copy(input_file, output_file)\<close> and
  \<^verbatim>\<open>return get_file_size_mb(output_file)\<close>, which \<^verbatim>\<open>compress_video\<close> has twice.
\<close>

definition copy_and_size :: "world \<Rightarrow> string \<Rightarrow> string \<Rightarrow> (error + pyfloat) \<times> world" where
  "copy_and_size w input_file output_file =
    (case shutil_copy w input_file output_file of
       (Inl err, w1) \<Rightarrow> (Inl err, w1)
     | (Inr u, w1) \<Rightarrow> (get_file_size_mb w1 output_file, w1))"

text \<open>
  The clean-up loop of \<^verbatim>\<open>compress_video\<close>: each of the two statistics files is removed
  if it exists.
\<close>

definition remove_if_exists :: "world \<Rightarrow> string \<Rightarrow> world" where
  "remove_if_exists w logfile =
    (if files w logfile \<noteq> None then w\<lparr>files := (files w)(logfile := None)\<rparr> else w)"

definition remove_pass_logs :: "world \<Rightarrow> world" where
  "remove_pass_logs w = foldl remove_if_exists w [''ffmpeg2pass-0.log'', ''ffmpeg2pass-0.log.mbtree'']"

text \<open>
  The truth value of an \<^verbatim>\<open>Optional[int]\<close> in \<^verbatim>\<open>if target_mb:\<close>: \<^verbatim>\<open>None\<close> and \<^verbatim>\<open>0\<close>
  are false.
\<close>

definition truthy :: "int option \<Rightarrow> bool" where
  "truthy target_mb = (case target_mb of None \<Rightarrow> False | Some t \<Rightarrow> t \<noteq> 0)"

text \<open>
  The guard of the first copy: \<^verbatim>\<open>target_mb is not None\<close> and
  \<^verbatim>\<open>src_size_mb <= (target_mb - 0.2)\<close>. The subtraction converts the target to a
  float, which raises for a target too large, and rounds the difference; the literal
  \<^verbatim>\<open>0.2\<close> is the double nearest to two tenths.
\<close>

definition two_tenths :: pyfloat where
  "two_tenths = round_float (2 / 10)"

definition under_target :: "pyfloat \<Rightarrow> int option \<Rightarrow> error + bool" where
  "under_target src_size_mb target_mb =
    (case target_mb of
       None \<Rightarrow> Inr False
     | Some t \<Rightarrow>
        (case float_of_int t of
           Inl err \<Rightarrow> Inl err
         | Inr ft \<Rightarrow> Inr (fle src_size_mb (fsub ft two_tenths))))"

text \<open>
  The video bit rate of the normal mode:
  \<^verbatim>\<open>max(int(src_kbps * mult), 350) if src_kbps else 1200\<close>. The product converts the
  bit rate to a float and is rounded.
\<close>

definition crf_video_kbps :: "int \<Rightarrow> pyfloat \<Rightarrow> error + int" where
  "crf_video_kbps src_kbps multiplier =
    (if src_kbps \<noteq> 0 then
       (case float_of_int src_kbps of
          Inl err \<Rightarrow> Inl err
        | Inr fk \<Rightarrow>
           (case py_int (fmul fk multiplier) of
              Inl err \<Rightarrow> Inl err
            | Inr v \<Rightarrow> Inr (max v 350)))
     else Inr 1200)"

text \<open>
  The video bit rate of the target mode:
  \<^verbatim>\<open>max(int(target_mb * 8192 / duration) - audio_kbps, 300)\<close>. The product is an
  \<^verbatim>\<open>int\<close>; the division converts it to a float, tests the duration for zero and
  rounds the quotient.
\<close>

definition target_video_kbps :: "int \<Rightarrow> pyfloat \<Rightarrow> int \<Rightarrow> error + int" where
  "target_video_kbps t duration audio_kbps =
    (case float_of_int (t * 8192) of
       Inl err \<Rightarrow> Inl err
     | Inr fa \<Rightarrow>
        (case fdiv fa duration of
           Inl err \<Rightarrow> Inl err
         | Inr q \<Rightarrow>
            (case py_int q of
               Inl err \<Rightarrow> Inl err
             | Inr total_kbps \<Rightarrow> Inr (max (total_kbps - audio_kbps) 300))))"

text \<open>
  \<^verbatim>\<open>compress_video\<close>, statement by statement: the preset, the probe, the copy when the
  source is already 0.2 MB under a given target, the two-pass encode with the
  clean-up of the statistics files when \<^verbatim>\<open>target_mb\<close> is true, and otherwise the
  normal mode with its own copy and the single pass. An exception leaves the function
  at once, with the world as it is at that point.
\<close>

definition compress_video ::
  "env \<Rightarrow> world \<Rightarrow> string \<Rightarrow> string \<Rightarrow> string \<Rightarrow> int option \<Rightarrow> (error + pyfloat) \<times> world" where
  "compress_video e w input_file output_file preset_name target_mb =
    (case get_preset preset_name of
       Inl err \<Rightarrow> (Inl err, w)
     | Inr preset_config \<Rightarrow>
        (case get_video_info e w input_file of
           Inl err \<Rightarrow> (Inl err, w)
         | Inr (width, height, duration, src_kbps, src_size_mb) \<Rightarrow>
            (let scale_filter = ''scale=-2:'' @ str_int (max_height preset_config);
                 audio_kbps = 96
             in case under_target src_size_mb target_mb of
                  Inl err \<Rightarrow> (Inl err, w)
                | Inr True \<Rightarrow> copy_and_size w input_file output_file
                | Inr False \<Rightarrow>
                   if truthy target_mb then
                     (case target_video_kbps (the target_mb) duration audio_kbps of
                        Inl err \<Rightarrow> (Inl err, w)
                      | Inr video_kbps \<Rightarrow>
                         (case two_pass_encode e w input_file output_file scale_filter
                                 video_kbps audio_kbps (preset preset_config) of
                            (Inl err, w1) \<Rightarrow> (Inl err, w1)
                          | (Inr u, w1) \<Rightarrow>
                             (get_file_size_mb (remove_pass_logs w1) output_file,
                              remove_pass_logs w1)))
                   else
                     (case crf_video_kbps src_kbps (video_kbps_mult preset_config) of
                        Inl err \<Rightarrow> (Inl err, w)
                      | Inr video_kbps \<Rightarrow>
                         if src_kbps \<noteq> 0 \<and> src_kbps \<le> video_kbps
                         then copy_and_size w input_file output_file
                         else
                          (case one_pass_encode e w input_file output_file scale_filter
                                  video_kbps audio_kbps (preset preset_config) of
                             (Inl err, w1) \<Rightarrow> (Inl err, w1)
                           | (Inr u, w1) \<Rightarrow> (get_file_size_mb w1 output_file, w1))))))"

section \<open>The front end (app/gui.py)\<close>

text \<open>
  \<^verbatim>\<open>str.strip()\<close> removes white space at both ends. Characters are the code points
  below 256; the white space among them is tab, line feed, vertical tab, form feed,
  carriage return, the four separators 28 to 31, the space, the next-line character 133
  and the no-break space 160.
\<close>

definition is_space :: "char \<Rightarrow> bool" where
  "is_space c = ((of_char c :: nat) \<in> set [9, 10, 11, 12, 13, 28, 29, 30, 31, 32, 133, 160])"

definition strip :: "string \<Rightarrow> string" where
  "strip s = rev (dropWhile is_space (rev (dropWhile is_space s)))"

text \<open>
  \<^verbatim>\<open>int(raw)\<close> of a string: an optional sign, then decimal digits, where single
  underscores may stand between digits; anything else raises \<^verbatim>\<open>ValueError\<close>, which is
  \<open>None\<close> here. \<open>digits_value\<close> reads the digits; its flag says whether the previous
  character was a digit.
\<close>

definition is_digit :: "char \<Rightarrow> bool" where
  "is_digit c = (c \<in> set ''0123456789'')"

definition digit_val :: "char \<Rightarrow> nat" where
  "digit_val c = of_char c - 48"

fun digits_value :: "nat \<Rightarrow> bool \<Rightarrow> string \<Rightarrow> nat option" where
  "digits_value acc after_digit [] = (if after_digit then Some acc else None)"
| "digits_value acc after_digit (c # cs) =
    (if is_digit c then digits_value (acc * 10 + digit_val c) True cs
     else if c = CHR ''_'' \<and> after_digit then digits_value acc False cs
     else None)"

definition int_of_string :: "string \<Rightarrow> int option" where
  "int_of_string s =
    (case strip s of
       [] \<Rightarrow> None
     | c # ds \<Rightarrow>
        if c = CHR ''-'' then map_option (\<lambda>n. - int n) (digits_value 0 False ds)
        else if c = CHR ''+'' then map_option int (digits_value 0 False ds)
        else map_option int (digits_value 0 False (c # ds)))"

text \<open>
  A queued job: input path, output path, preset name and optional target size.
\<close>

type_synonym job = "string \<times> string \<times> string \<times> int option"

text \<open>
  The state of \<^verbatim>\<open>CompressorApp\<close>. \<open>tk_root\<close> says whether the window exists; the
  optional widgets hold their content once built: the text of the status variable, of
  the target entry, and the lines of the log. The callbacks that \<^verbatim>\<open>root.after(0, ...)\<close>
  schedules are run at once, in the order they are posted. The pictograph that starts
  each log line in the source is left out of the text.
\<close>

record CompressorApp =
  task_queue :: "job list"
  current_preset :: string
  tk_root :: bool
  status_var :: "string option"
  targetEntry :: "string option"
  log_widget :: "string list option"

definition set_status :: "CompressorApp \<Rightarrow> string \<Rightarrow> CompressorApp" where
  "set_status app text =
    (if tk_root app \<and> status_var app \<noteq> None then app\<lparr>status_var := Some text\<rparr> else app)"

definition log_msg :: "CompressorApp \<Rightarrow> string \<Rightarrow> CompressorApp" where
  "log_msg app text =
    (case log_widget app of
       None \<Rightarrow> app
     | Some ls \<Rightarrow> if tk_root app then app\<lparr>log_widget := Some (ls @ [text])\<rparr> else app)"

text \<open>
  \<^verbatim>\<open>get_target_mb\<close>: the stripped text of the entry; empty gives \<^verbatim>\<open>None\<close>, a number
  gives the number, and anything else sets the status and gives \<^verbatim>\<open>None\<close> again.
\<close>

definition get_target_mb :: "CompressorApp \<Rightarrow> (error + int option) \<times> CompressorApp" where
  "get_target_mb app =
    (case targetEntry app of
       None \<Rightarrow> (Inl (AttributeError ''targetEntry''), app)
     | Some entry_text \<Rightarrow>
        (let raw = strip entry_text
         in if raw = [] then (Inr None, app)
            else (case int_of_string raw of
                    Some n \<Rightarrow> (Inr (Some n), app)
                  | None \<Rightarrow> (Inr None, set_status app ''Error: Target MB must be a number''))))"

text \<open>
  \<^verbatim>\<open>choose_file\<close>. \<open>file_path\<close> is what the file dialog returned (empty when it was
  cancelled) and \<open>existing\<close> the paths on disk. The job is put on the queue whatever
  \<^verbatim>\<open>get_target_mb\<close> returned.
\<close>

definition choose_file :: "string \<Rightarrow> string list \<Rightarrow> CompressorApp \<Rightarrow> (error + unit) \<times> CompressorApp" where
  "choose_file file_path existing app =
    (if file_path = [] then
       (Inr (), log_msg (set_status app ''Error: No file selected'') ''No file selected'')
     else
       (let output_file =
              output_filename existing
                (fst (splitext file_path) @ current_preset app @ ''_compressed.mp4'')
        in case get_target_mb app of
             (Inl err, app1) \<Rightarrow> (Inl err, app1)
           | (Inr target_mb, app1) \<Rightarrow>
              (let app2 = log_msg app1
                     (''Target size: ''
                        @ (if truthy target_mb then str_int (the target_mb) else ''CRF mode'')
                        @ '' MB'')
               in (Inr (), app2\<lparr>task_queue := task_queue app2
                     @ [(file_path, output_file, current_preset app2, target_mb)]\<rparr>))))"

text \<open>
  The outcome of a job, as the worker logs it: the size of the output, or the exception
  that \<^verbatim>\<open>except Exception\<close> caught.
\<close>

datatype outcome = Succeeded pyfloat | Failed error

text \<open>
  The text of an exception in a message, abbreviated to the name of its class.
\<close>

fun str_error :: "error \<Rightarrow> string" where
  "str_error (KeyError s) = ''KeyError''"
| "str_error (ProbeError s) = ''Error''"
| "str_error (ValueError s) = ''ValueError''"
| "str_error ZeroDivisionError = ''ZeroDivisionError''"
| "str_error OverflowError = ''OverflowError''"
| "str_error (CalledProcessError c) = ''CalledProcessError''"
| "str_error (FileNotFoundError s) = ''FileNotFoundError''"
| "str_error (SameFileError s) = ''SameFileError''"
| "str_error (AttributeError s) = ''AttributeError''"

text \<open>
  The body of the loop of \<^verbatim>\<open>worker\<close> for the job it took from the queue: the status
  and the log line, \<^verbatim>\<open>compress_video\<close>, the log line of the success or the status and
  the log line of the exception, and in \<^verbatim>\<open>finally\<close> the status \<^verbatim>\<open>Idle\<close> when the
  queue is empty. In the messages the formatted size and the word before the output
  path are left out.
\<close>

definition worker_body :: "env \<Rightarrow> CompressorApp \<Rightarrow> world \<Rightarrow> job \<Rightarrow> CompressorApp \<times> world \<times> outcome" where
  "worker_body e app w job =
    (case job of
       (input_file, output_file, preset_name, target_mb) \<Rightarrow>
        (let app1 = set_status app (''Compressing ('' @ preset_name @ '')...'');
             app2 = log_msg app1
                      (''Compressing '' @ input_file @ '' to '' @ output_file
                         @ '' with preset '' @ [CHR 0x27] @ preset_name @ [CHR 0x27]
                         @ '' and target ''
                         @ (case target_mb of None \<Rightarrow> ''None'' | Some t \<Rightarrow> str_int t)
                         @ '' MB'')
         in case compress_video e w input_file output_file preset_name target_mb of
              (Inr size_mb, w1) \<Rightarrow>
               (let app3 = log_msg app2 (''Done: '' @ output_file)
                in (if task_queue app3 = [] then set_status app3 ''Idle'' else app3,
                    w1, Succeeded size_mb))
            | (Inl err, w1) \<Rightarrow>
               (let app3 = log_msg (set_status app2 (''Error: '' @ str_error err))
                             (''Error compressing '' @ input_file @ '': '' @ str_error err)
                in (if task_queue app3 = [] then set_status app3 ''Idle'' else app3,
                    w1, Failed err))))"

text \<open>
  The worker pool. Each thread started by \<^verbatim>\<open>start_workers\<close> is a slot of \<open>running\<close>:
  \<open>None\<close> while it waits in \<^verbatim>\<open>task_queue.get()\<close>, the job while it runs the body.
  \<open>finished\<close> lists the jobs that left the body, with the worker and the outcome, and
  \<open>submitted\<close> the jobs ever put on the queue.
\<close>

record pool =
  gui :: CompressorApp
  disk :: world
  running :: "job option list"
  finished :: "(nat \<times> job \<times> outcome) list"
  submitted :: "job list"

definition start_workers :: "nat \<Rightarrow> CompressorApp \<Rightarrow> world \<Rightarrow> pool" where
  "start_workers n app w =
    \<lparr>gui = app, disk = w, running = replicate n None, finished = [],
     submitted = task_queue app\<rparr>"

text \<open>
  The steps of the workers, interleaved in any order. \<open>pop\<close> is \<^verbatim>\<open>task_queue.get()\<close>
  returning to a waiting worker: the queue hands its first job to one caller.
  \<open>complete\<close> is the body of the loop for the job the worker holds, run to its end;
  the transcoder of \<open>env\<close> returns, so the body does.
\<close>

inductive work :: "env \<Rightarrow> pool \<Rightarrow> pool \<Rightarrow> bool" for e :: env where
  pop:
    "i < length (running s) \<Longrightarrow> running s ! i = None \<Longrightarrow> task_queue (gui s) = job # rest \<Longrightarrow>
     work e s (s\<lparr>gui := (gui s)\<lparr>task_queue := rest\<rparr>, running := (running s)[i := Some job]\<rparr>)"
| complete:
    "i < length (running s) \<Longrightarrow> running s ! i = Some job \<Longrightarrow>
     worker_body e (gui s) (disk s) job = (app', disk', out) \<Longrightarrow>
     work e s (s\<lparr>gui := app', disk := disk', running := (running s)[i := None],
                 finished := finished s @ [(i, job, out)]\<rparr>)"

text \<open>
  \<^verbatim>\<open>task_queue.put(job)\<close>, as \<^verbatim>\<open>choose_file\<close> and \<^verbatim>\<open>process_video\<close> call it, and
  the steps of the whole program: a worker's step or a submission.
\<close>

definition submit :: "pool \<Rightarrow> job \<Rightarrow> pool" where
  "submit s job =
    s\<lparr>gui := (gui s)\<lparr>task_queue := task_queue (gui s) @ [job]\<rparr>,
      submitted := submitted s @ [job]\<rparr>"

inductive step :: "env \<Rightarrow> pool \<Rightarrow> pool \<Rightarrow> bool" for e :: env where
  worked: "work e s s' \<Longrightarrow> step e s s'"
| put: "step e s (submit s job)"

text \<open>
  The jobs the workers hold, the state in which the queue is drained and every worker
  waits, and the work still to do: two steps for a queued job, one for a held one.
\<close>

fun in_flight :: "job option list \<Rightarrow> job list" where
  "in_flight [] = []"
| "in_flight (None # rs) = in_flight rs"
| "in_flight (Some job # rs) = job # in_flight rs"

definition quiescent :: "pool \<Rightarrow> bool" where
  "quiescent s = (task_queue (gui s) = [] \<and> in_flight (running s) = [])"

definition pending :: "pool \<Rightarrow> nat" where
  "pending s = 2 * length (task_queue (gui s)) + length (in_flight (running s))"

text \<open>
  Every submitted job is accounted for: on the queue, held by a worker or finished,
  with its multiplicity.
\<close>

definition accounted :: "pool \<Rightarrow> bool" where
  "accounted s =
    (mset (task_queue (gui s)) + mset (in_flight (running s))
       + mset (map (\<lambda>(i, job, out). job) (finished s)) = mset (submitted s))"


section \<open>Sample inputs\<close>

text \<open>
  A probe result with one audio and one video stream, 100 seconds long at 2000 kbit/s,
  and one with a bit rate of \<open>2 ^ 53 + 1\<close> kbit/s; a transcoder that succeeds, whose
  first pass leaves the two statistics files and whose other runs write the output; one
  whose second pass exits non-zero; and a disk that holds the input file of 10380903
  bytes (a little over 9.9 MB).
\<close>

definition sample_probe :: ProbeResult where
  "sample_probe =
    \<lparr>streams = [\<lparr>codec_type = ''audio'', stream_width = 0, stream_height = 0\<rparr>,
                \<lparr>codec_type = ''video'', stream_width = 1920, stream_height = 1080\<rparr>],
     format_duration = Fin 100, format_bit_rate = Some 2000000\<rparr>"

definition huge_probe :: ProbeResult where
  "huge_probe = sample_probe\<lparr>format_bit_rate := Some 9007199254740993000\<rparr>"

definition ffmpeg_ok :: "FfmpegCmd \<Rightarrow> (string \<Rightarrow> nat option) \<Rightarrow> bool \<times> (string \<Rightarrow> nat option)" where
  "ffmpeg_ok cmd fs =
    (if cmd_pass cmd = Some 1
     then (True, fs(''ffmpeg2pass-0.log'' \<mapsto> 4096, ''ffmpeg2pass-0.log.mbtree'' \<mapsto> 65536))
     else (True, fs(cmd_output cmd \<mapsto> 5242880)))"

definition ffmpeg_pass2_fails :: "FfmpegCmd \<Rightarrow> (string \<Rightarrow> nat option) \<Rightarrow> bool \<times> (string \<Rightarrow> nat option)" where
  "ffmpeg_pass2_fails cmd fs =
    (if cmd_pass cmd = Some 1
     then (True, fs(''ffmpeg2pass-0.log'' \<mapsto> 4096, ''ffmpeg2pass-0.log.mbtree'' \<mapsto> 65536))
     else (False, fs))"

definition env_ok :: env where
  "env_ok = \<lparr>probe = (\<lambda>p. Some sample_probe), ffmpeg = ffmpeg_ok, os_name = ''posix''\<rparr>"

definition env_pass2_fails :: env where
  "env_pass2_fails =
    \<lparr>probe = (\<lambda>p. Some sample_probe), ffmpeg = ffmpeg_pass2_fails, os_name = ''posix''\<rparr>"

definition env_huge :: env where
  "env_huge = \<lparr>probe = (\<lambda>p. Some huge_probe), ffmpeg = ffmpeg_ok, os_name = ''posix''\<rparr>"

definition world0 :: world where
  "world0 = \<lparr>files = [''in.mp4'' \<mapsto> 10380903], calls = []\<rparr>"

definition app0 :: CompressorApp where
  "app0 = \<lparr>task_queue = [], current_preset = ''medium'', tk_root = True,
           status_var = Some ''Ready to compress videos!'', targetEntry = Some ''10'',
           log_widget = Some []\<rparr>"

text \<open>
  A job with a preset name that is not in the table, and the pool of two workers that
  starts with this job on the queue, after \<open>worker 0\<close> took it, and after the body of
  the loop ran for it.
\<close>

definition job_ultra :: job where
  "job_ultra = (''in.mp4'', ''out.mp4'', ''ultra'', None)"

definition pool_start :: pool where
  "pool_start = start_workers 2 (app0\<lparr>task_queue := [job_ultra]\<rparr>) world0"

definition pool_popped :: pool where
  "pool_popped =
    pool_start\<lparr>gui := (gui pool_start)\<lparr>task_queue := []\<rparr>,
               running := (running pool_start)[0 := Some job_ultra]\<rparr>"

definition pool_done :: pool where
  "pool_done =
    (case worker_body env_ok (gui pool_popped) (disk pool_popped) job_ultra of
       (app', disk', out) \<Rightarrow>
        pool_popped\<lparr>gui := app', disk := disk', running := (running pool_popped)[0 := None],
                    finished := finished pool_popped @ [(0, job_ultra, out)]\<rparr>)"

section \<open>Properties of the rounding\<close>

lemma pow2_powi: "pow2 e = 2 powi e"
  by (simp add: pow2_def power_int_def field_simps)

lemma pow2_pos: "0 < pow2 e"
  by (simp add: pow2_powi)

lemma pow2_add: "pow2 (a + b) = pow2 a * pow2 b"
  by (simp add: pow2_powi power_int_add)

lemma pow2_diff: "pow2 (a - b) = pow2 a / pow2 b"
  by (simp add: pow2_powi power_int_diff)

lemma pow2_nat: "0 \<le> e \<Longrightarrow> pow2 e = 2 ^ nat e"
  by (simp add: pow2_def)

lemma pow2_mono: "a \<le> b \<Longrightarrow> pow2 a \<le> pow2 b"
  by (simp add: pow2_powi power_int_increasing)

lemma pow2_less_D: "pow2 a < pow2 b \<Longrightarrow> a < b"
  using pow2_mono [of b a] by (cases "a < b") auto

lemma bitlen_ge_1: "0 < n \<Longrightarrow> 1 \<le> bitlen n"
  using bitlen_eq_zero_iff [of n] bitlen_nonneg [of n] by linarith

lemma ilog2_lower: "0 < a \<Longrightarrow> pow2 (ilog2 a) \<le> a"
proof (cases "1 \<le> a")
  case True
  then have n: "0 < \<lfloor>a\<rfloor>" by simp
  from bitlen_bounds [OF n] have "(2::int) ^ nat (bitlen \<lfloor>a\<rfloor> - 1) \<le> \<lfloor>a\<rfloor>" by simp
  then have "(of_int ((2::int) ^ nat (bitlen \<lfloor>a\<rfloor> - 1)) :: rat) \<le> of_int \<lfloor>a\<rfloor>"
    by (simp only: of_int_le_iff)
  then have "(2::rat) ^ nat (bitlen \<lfloor>a\<rfloor> - 1) \<le> a" by (simp add: le_floor_iff)
  moreover have "0 \<le> bitlen \<lfloor>a\<rfloor> - 1" using bitlen_ge_1 [OF n] by simp
  ultimately show ?thesis using True by (simp add: ilog2_def pow2_nat)
next
  case False
  assume pos: "0 < a"
  with False have inv: "1 < 1 / a" by (simp add: field_simps)
  then have c: "2 \<le> \<lceil>1 / a\<rceil>" by (simp add: le_ceiling_iff) 
  then have m: "0 < \<lceil>1 / a\<rceil> - 1" by simp
  let ?J = "bitlen (\<lceil>1 / a\<rceil> - 1)"
  from bitlen_bounds [OF m] have "\<lceil>1 / a\<rceil> - 1 < 2 ^ nat ?J" by simp
  then have "\<lceil>1 / a\<rceil> \<le> 2 ^ nat ?J" by simp
  then have "1 / a \<le> of_int (2 ^ nat ?J)" by (simp only: ceiling_le_iff)
  then have "1 / a \<le> 2 ^ nat ?J" by simp
  with pos have "1 / 2 ^ nat ?J \<le> a" by (simp add: field_simps)
  moreover have "1 \<le> ?J" using bitlen_ge_1 [OF m] .
  ultimately show ?thesis using False by (simp add: ilog2_def pow2_def)
qed

lemma ilog2_upper: "0 < a \<Longrightarrow> a < pow2 (ilog2 a + 1)"
proof (cases "1 \<le> a")
  case True
  then have n: "0 < \<lfloor>a\<rfloor>" by simp
  from bitlen_bounds [OF n] have "\<lfloor>a\<rfloor> + 1 \<le> 2 ^ nat (bitlen \<lfloor>a\<rfloor>)" by simp
  then have "(of_int (\<lfloor>a\<rfloor> + 1) :: rat) \<le> of_int (2 ^ nat (bitlen \<lfloor>a\<rfloor>))"
    by (simp only: of_int_le_iff)
  moreover have "a < of_int (\<lfloor>a\<rfloor> + 1)" by simp linarith
  ultimately have "a < 2 ^ nat (bitlen \<lfloor>a\<rfloor>)" by simp
  moreover have "0 \<le> bitlen \<lfloor>a\<rfloor>" by (rule bitlen_nonneg)
  ultimately show ?thesis using True by (simp add: ilog2_def pow2_nat)
next
  case False
  assume pos: "0 < a"
  with False have inv: "1 < 1 / a" by (simp add: field_simps)
  then have c: "2 \<le> \<lceil>1 / a\<rceil>" by (simp add: le_ceiling_iff) 
  then have m: "0 < \<lceil>1 / a\<rceil> - 1" by simp
  let ?J = "bitlen (\<lceil>1 / a\<rceil> - 1)"
  have J: "1 \<le> ?J" using bitlen_ge_1 [OF m] .
  from bitlen_bounds [OF m] have "(2::int) ^ nat (?J - 1) \<le> \<lceil>1 / a\<rceil> - 1" by simp
  then have "(of_int ((2::int) ^ nat (?J - 1)) :: rat) \<le> of_int (\<lceil>1 / a\<rceil> - 1)"
    by (simp only: of_int_le_iff)
  moreover have "(of_int (\<lceil>1 / a\<rceil> - 1) :: rat) < 1 / a"
    using of_int_ceiling_diff_one_le [of "1 / a"] ceiling_correct [of "1 / a"] by simp
  ultimately have "(2::rat) ^ nat (?J - 1) < 1 / a" by simp
  with pos have lt: "a < 1 / 2 ^ nat (?J - 1)" by (simp add: field_simps)
  have "pow2 (- ?J + 1) = 1 / 2 ^ nat (?J - 1)"
    using J by (cases "?J = 1") (simp_all add: pow2_def)
  with lt show ?thesis using False by (simp add: ilog2_def)
qed

lemma ilog2_eqI:
  assumes "pow2 k \<le> a" and "a < pow2 (k + 1)"
  shows "ilog2 a = k"
proof -
  from assms(1) pow2_pos [of k] have pos: "0 < a" by linarith
  have "pow2 (ilog2 a) < pow2 (k + 1)" using ilog2_lower [OF pos] assms(2) by linarith
  then have 1: "ilog2 a < k + 1" by (rule pow2_less_D)
  have "pow2 k < pow2 (ilog2 a + 1)" using ilog2_upper [OF pos] assms(1) by linarith
  then have 2: "k < ilog2 a + 1" by (rule pow2_less_D)
  from 1 2 show ?thesis by simp
qed


lemma round_half_even_eqI:
  assumes "of_int m - 1 / 2 < x" and "x < of_int m + 1 / 2"
  shows "round_half_even x = m"
proof (cases "of_int m \<le> x")
  case True
  with assms(2) have f: "\<lfloor>x\<rfloor> = m" by (simp add: floor_eq_iff)
  with assms(2) show ?thesis by (simp add: round_half_even_def Let_def)
next
  case False
  with assms(1) have f: "\<lfloor>x\<rfloor> = m - 1" by (simp add: floor_eq_iff)
  with assms(1) show ?thesis by (simp add: round_half_even_def Let_def)
qed

lemma round_half_even_tie:
  assumes "x = of_int m + 1 / 2"
  shows "round_half_even x = (if even m then m else m + 1)"
proof -
  from assms have f: "\<lfloor>x\<rfloor> = m" by (simp add: floor_eq_iff)
  with assms show ?thesis by (simp add: round_half_even_def Let_def)
qed

lemma round_half_even_of_int: "round_half_even (of_int n) = n"
  by (rule round_half_even_eqI) simp_all

lemma round_half_even_ge_floor: "\<lfloor>x\<rfloor> \<le> round_half_even x"
  by (simp add: round_half_even_def Let_def)

lemma round_float_pos:
  assumes "pow2 (e + 52) \<le> x" and "x < pow2 (e + 53)" and "- 1074 \<le> e"
  shows "round_float x =
     (if 2 ^ 1024 \<le> of_int (round_half_even (x / pow2 e)) * pow2 e then PInf
      else Fin (of_int (round_half_even (x / pow2 e)) * pow2 e))"
proof -
  from assms(1) pow2_pos [of "e + 52"] have pos: "0 < x" by linarith
  from assms(2) have "x < pow2 (e + 52 + 1)" by (simp add: add.commute add.left_commute)
  with assms(1) have "ilog2 x = e + 52" by (rule ilog2_eqI)
  with assms(3) have "max (ilog2 \<bar>x\<bar> - 52) (- 1074) = e" using pos by simp
  with pos show ?thesis by (simp add: round_float_def Let_def)
qed

lemma round_float_eqI:
  assumes "pow2 (e + 52) \<le> x" and "x < pow2 (e + 53)" and "- 1074 \<le> e"
    and "of_int m - 1 / 2 < x / pow2 e" and "x / pow2 e < of_int m + 1 / 2"
    and "of_int m * pow2 e < 2 ^ 1024"
  shows "round_float x = Fin (of_int m * pow2 e)"
proof -
  from assms(4,5) have "round_half_even (x / pow2 e) = m" by (rule round_half_even_eqI)
  with assms(6) show ?thesis by (simp add: round_float_pos [OF assms(1-3)])
qed

lemma round_float_exact:
  assumes "\<bar>n\<bar> < 2 ^ 53" and "- 1074 \<le> j" and "j \<le> 971"
  shows "round_float (of_int n * pow2 j) = Fin (of_int n * pow2 j)"
proof (cases "n = 0")
  case True
  then show ?thesis by (simp add: round_float_def)
next
  case False
  let ?x = "of_int n * pow2 j :: rat"
  let ?a = "\<bar>?x\<bar>"
  let ?e = "max (ilog2 ?a - 52) (- 1074)"
  have a: "?a = of_int \<bar>n\<bar> * pow2 j" using pow2_pos [of j] by (simp add: abs_mult)
  from False have apos: "0 < ?a" using pow2_pos [of j] by simp
  have "(of_int \<bar>n\<bar> :: rat) < of_int (2 ^ 53)" using assms(1) by (simp only: of_int_less_iff)
  then have "of_int \<bar>n\<bar> * pow2 j < 2 ^ 53 * pow2 j" using pow2_pos [of j] by simp
  also have "\<dots> = pow2 (53 + j)"
  proof -
    have "(2::rat) ^ 53 = pow2 53" by (simp add: pow2_def)
    then show ?thesis by (simp only: pow2_add)
  qed
  finally have ub: "?a < pow2 (53 + j)" by (simp only: a)
  with ilog2_lower [OF apos] have "pow2 (ilog2 ?a) < pow2 (53 + j)" by linarith
  then have "ilog2 ?a < 53 + j" by (rule pow2_less_D)
  with assms(2) have ej: "?e \<le> j" by simp
  have "pow2 j = pow2 (j - ?e) * pow2 ?e" using pow2_add [of "j - ?e" ?e] by simp
  also have "pow2 (j - ?e) = 2 ^ nat (j - ?e)" using ej by (simp add: pow2_nat)
  finally have pj: "pow2 j = 2 ^ nat (j - ?e) * pow2 ?e" .
  have q: "?a / pow2 ?e = of_int (\<bar>n\<bar> * 2 ^ nat (j - ?e))"
    using pow2_pos [of ?e] by (subst a, subst pj) simp
  have m: "round_half_even (?a / pow2 ?e) = \<bar>n\<bar> * 2 ^ nat (j - ?e)"
    by (simp only: q round_half_even_of_int)
  have r: "of_int (round_half_even (?a / pow2 ?e)) * pow2 ?e = ?a"
    by (subst m, subst (2) a, subst (2) pj) simp
  from assms(3) have "pow2 (53 + j) \<le> pow2 1024" by (intro pow2_mono) simp
  with ub have "?a < 2 ^ 1024" by (simp add: pow2_def)
  then have nov: "\<not> 2 ^ 1024 \<le> of_int (round_half_even (?a / pow2 ?e)) * pow2 ?e"
    by (simp only: r not_le)
  have x0: "?x \<noteq> 0" using False pow2_pos [of j] by simp
  have "round_float ?x = Fin (if 0 < ?x then ?a else - ?a)"
    unfolding round_float_def Let_def using x0 nov by (simp only: r if_False)
  also have "(if 0 < ?x then ?a else - ?a) = ?x" by simp
  finally show ?thesis .
qed

lemma round_float_of_int: "\<bar>n\<bar> < 2 ^ 53 \<Longrightarrow> round_float (of_int n) = Fin (of_int n)"
  using round_float_exact [of n 0] by (simp add: pow2_def)

lemma round_float_overflow:
  assumes "2 ^ 1024 \<le> x"
  shows "round_float x = PInf"
proof -
  from assms have pos: "0 < x" by (rule less_le_trans [rotated]) simp
  let ?e = "max (ilog2 \<bar>x\<bar> - 52) (- 1074)"
  have "pow2 1024 \<le> x" using assms by (simp add: pow2_def)
  with ilog2_upper [OF pos] have "pow2 1024 < pow2 (ilog2 x + 1)" by linarith
  then have big: "1024 < ilog2 x + 1" by (rule pow2_less_D)
  then have e: "?e = ilog2 x - 52" using pos by simp
  have pe: "pow2 (ilog2 x) = pow2 52 * pow2 ?e" using pow2_add [of 52 "ilog2 x - 52"] e by simp
  with ilog2_lower [OF pos] have "pow2 52 * pow2 ?e \<le> x" by simp
  then have "pow2 52 \<le> x / pow2 ?e" using pow2_pos [of ?e] by (simp add: field_simps)
  then have "(of_int (2 ^ 52) :: rat) \<le> x / pow2 ?e" by (simp add: pow2_def)
  then have "2 ^ 52 \<le> \<lfloor>x / pow2 ?e\<rfloor>" by (simp only: le_floor_iff)
  with round_half_even_ge_floor [of "x / pow2 ?e"]
  have "2 ^ 52 \<le> round_half_even (x / pow2 ?e)" by linarith
  then have "(of_int (2 ^ 52) :: rat) \<le> of_int (round_half_even (x / pow2 ?e))"
    by (simp only: of_int_le_iff)
  then have "pow2 52 * pow2 ?e \<le> of_int (round_half_even (x / pow2 ?e)) * pow2 ?e"
    using pow2_pos [of ?e] by (simp add: pow2_def)
  moreover have "pow2 1024 \<le> pow2 52 * pow2 ?e"
    using pow2_mono [of 1024 "ilog2 x"] big by (simp only: pe [symmetric])
  ultimately have "pow2 1024 \<le> of_int (round_half_even (x / pow2 ?e)) * pow2 ?e"
    by (rule order_trans [rotated])
  moreover have "pow2 1024 = 2 ^ 1024" by (simp add: pow2_def)
  moreover have "\<bar>x\<bar> = x" using pos by simp
  ultimately have "2 ^ 1024 \<le> of_int (round_half_even (\<bar>x\<bar> / pow2 ?e)) * pow2 ?e"
    by simp
  with pos show ?thesis by (simp add: round_float_def Let_def)
qed

section \<open>Properties of the preset table\<close>

lemma PRESETS_keys: "map fst PRESETS = [''light'', ''medium'', ''strong'']"
  by (simp add: PRESETS_def)

lemma get_preset_light:
  "get_preset ''light'' =
     Inr \<lparr>max_height = 1080, video_kbps_mult = Fin 1, crf = 20, preset = ''slow''\<rparr>"
  by (simp add: get_preset_def PRESETS_def)

lemma get_preset_medium:
  "get_preset ''medium'' =
     Inr \<lparr>max_height = 720, video_kbps_mult = Fin (3 / 4), crf = 23, preset = ''slow''\<rparr>"
  by (simp add: get_preset_def PRESETS_def)

lemma get_preset_strong:
  "get_preset ''strong'' =
     Inr \<lparr>max_height = 480, video_kbps_mult = Fin (1 / 2), crf = 28, preset = ''medium''\<rparr>"
  by (simp add: get_preset_def PRESETS_def)

lemma get_preset_unknown:
  assumes "name \<noteq> ''light''" "name \<noteq> ''medium''" "name \<noteq> ''strong''"
  shows "get_preset name = Inl (KeyError name)"
  using assms by (simp add: get_preset_def PRESETS_keys)

text \<open>
  Claim C8. Looking a preset up succeeds, with the entry the table stores, exactly for
  the three names light, medium and strong, and raises the unknown-preset error
  (\<open>KeyError\<close>) for every other name; the names are listed in the order light, medium,
  strong. The table is a constant of the model, as no statement of the module assigns
  to it, so a lookup leaves it as it is.
\<close>

theorem get_preset_total_on_known_names:
  "(name \<in> {''light'', ''medium'', ''strong''} \<longrightarrow>
      (\<exists>cfg. get_preset name = Inr cfg \<and> map_of PRESETS name = Some cfg))
   \<and> (name \<notin> {''light'', ''medium'', ''strong''} \<longrightarrow> get_preset name = Inl (KeyError name))
   \<and> list_presets = [''light'', ''medium'', ''strong'']"
proof (intro conjI impI)
  assume "name \<in> {''light'', ''medium'', ''strong''}"
  then consider "name = ''light''" | "name = ''medium''" | "name = ''strong''"
    by blast
  then show "\<exists>cfg. get_preset name = Inr cfg \<and> map_of PRESETS name = Some cfg"
  proof cases
    case 1
    then show ?thesis by (simp add: get_preset_light) (simp add: PRESETS_def)
  next
    case 2
    then show ?thesis by (simp add: get_preset_medium) (simp add: PRESETS_def)
  next
    case 3
    then show ?thesis by (simp add: get_preset_strong) (simp add: PRESETS_def)
  qed
next
  assume "name \<notin> {''light'', ''medium'', ''strong''}"
  then show "get_preset name = Inl (KeyError name)"
    by (simp add: get_preset_unknown)
next
  show "list_presets = [''light'', ''medium'', ''strong'']"
    by (simp add: list_presets_def PRESETS_keys)
qed

theorem get_preset_total_on_known_names_witness:
  "get_preset ''medium'' =
     Inr \<lparr>max_height = 720, video_kbps_mult = Fin (3 / 4), crf = 23, preset = ''slow''\<rparr>
   \<and> get_preset ''ultra'' = Inl (KeyError ''ultra'')
   \<and> list_presets = [''light'', ''medium'', ''strong'']"
  using get_preset_total_on_known_names [of "''medium''"]
    get_preset_total_on_known_names [of "''ultra''"]
  by (simp add: PRESETS_def)

section \<open>Values of the float operations\<close>

lemma float_of_int_exact: "\<bar>n\<bar> < 2 ^ 53 \<Longrightarrow> float_of_int n = Inr (Fin (of_int n))"
  by (simp add: float_of_int_def finite_or_overflow_def round_float_of_int)

lemma float_of_int_overflow: "2 ^ 1024 \<le> n \<Longrightarrow> float_of_int n = Inl OverflowError"
proof -
  assume "2 ^ 1024 \<le> n"
  then have "(of_int (2 ^ 1024) :: rat) \<le> of_int n" by (simp only: of_int_le_iff)
  then have "round_float (of_int n) = PInf" by (intro round_float_overflow) simp
  then show ?thesis by (simp add: float_of_int_def finite_or_overflow_def)
qed

lemma two_tenths_value: "two_tenths = Fin (3602879701896397 / 18014398509481984)"
  using round_float_eqI [of "- 55" "2 / 10" 7205759403792794]
  by (simp add: two_tenths_def pow2_def)

lemma ten_minus_two_tenths:
  "fsub (Fin 10) two_tenths = Fin (2758454771764429 / 281474976710656)"
  using round_float_eqI [of "- 49" "10 - 3602879701896397 / 18014398509481984" 5516909543528858]
  by (simp add: two_tenths_value pow2_def)

lemma eleven_minus_two_tenths:
  "fsub (Fin 11) two_tenths = Fin (3039929748475085 / 281474976710656)"
  using round_float_eqI [of "- 49" "11 - 3602879701896397 / 18014398509481984" 6079859496950170]
  by (simp add: two_tenths_value pow2_def)

lemma zero_minus_two_tenths:
  "fsub (Fin 0) two_tenths = Fin (- (3602879701896397 / 18014398509481984))"
  using round_float_exact [of "- 3602879701896397" "- 54"]
  by (simp add: two_tenths_value pow2_def)

lemma round_float_9_7: "round_float (97 / 10) = Fin (2730307274093363 / 281474976710656)"
  using round_float_eqI [of "- 49" "97 / 10" 5460614548186726]
  by (simp add: pow2_def)

lemma round_float_9_9: "round_float (99 / 10) = Fin (5573204538870989 / 562949953421312)"
  using round_float_eqI [of "- 49" "99 / 10" 5573204538870989]
  by (simp add: pow2_def)

lemma round_float_819_2: "round_float (81920 / 100) = Fin (3602879701896397 / 4398046511104)"
  using round_float_eqI [of "- 43" "81920 / 100" 7205759403792794]
  by (simp add: pow2_def)

lemma round_float_800:
  "round_float (81920 / (3602879701896397 / 35184372088832)) = Fin 800"
  using round_float_eqI [of "- 43" "81920 / (3602879701896397 / 35184372088832)" 7036874417766400]
  by (simp add: pow2_def)

lemma round_float_tie_53: "round_float (of_int (2 ^ 53 + 1)) = Fin 9007199254740992"
proof -
  have "round_half_even (of_int (2 ^ 53 + 1) / pow2 1) = 2 ^ 52"
    using round_half_even_tie [of "of_int (2 ^ 53 + 1) / pow2 1" "2 ^ 52"]
    by (simp add: pow2_def)
  then show ?thesis
    using round_float_pos [of 1 "of_int (2 ^ 53 + 1)"] by (simp add: pow2_def)
qed

lemma round_float_tie_three_quarters:
  "round_float (6004799503160661 * (3 / 4)) = Fin 4503599627370496"
proof -
  have "round_half_even (6004799503160661 * (3 / 4) / pow2 (- 1)) = 2 ^ 53"
    using round_half_even_tie [of "6004799503160661 * (3 / 4) / pow2 (- 1)" "2 ^ 53 - 1"]
    by (simp add: pow2_def)
  then show ?thesis
    using round_float_pos [of "- 1" "6004799503160661 * (3 / 4)"] by (simp add: pow2_def)
qed

lemma round_float_sample_size:
  "round_float (10380903 / 1048576) = Fin (10380903 / 1048576)"
  using round_float_exact [of 10380903 "- 20"] by (simp add: pow2_def)

section \<open>Properties of the compression\<close>

lemma calls_subprocess_run:
  "calls (snd (subprocess_run e w cmd)) = calls w @ [Ffmpeg cmd]"
  by (simp add: subprocess_run_def Let_def split: prod.split)

lemma subprocess_run_ok_iff:
  "(\<exists>u. fst (subprocess_run e w cmd) = Inr u) \<longleftrightarrow> fst (ffmpeg e cmd (files w))"
  by (simp add: subprocess_run_def Let_def split: prod.split)

lemma calls_two_pass_encode:
  "calls (snd (two_pass_encode e w i o' s v a p)) =
     calls w @ Ffmpeg (cmd_pass1 i s v p (null_device e))
       # (if fst (ffmpeg e (cmd_pass1 i s v p (null_device e)) (files w))
          then [Ffmpeg (cmd_pass2 i o' s v a p)] else [])"
proof (cases "subprocess_run e w (cmd_pass1 i s v p (null_device e))")
  case (Pair r w1)
  have c1: "calls w1 = calls w @ [Ffmpeg (cmd_pass1 i s v p (null_device e))]"
    using calls_subprocess_run [of e w "cmd_pass1 i s v p (null_device e)"] Pair by simp
  show ?thesis
  proof (cases r)
    case (Inl err)
    with Pair have "\<not> fst (ffmpeg e (cmd_pass1 i s v p (null_device e)) (files w))"
      using subprocess_run_ok_iff [of e w "cmd_pass1 i s v p (null_device e)"] by simp
    with Pair Inl c1 show ?thesis by (simp add: two_pass_encode_def)
  next
    case (Inr u)
    with Pair have "fst (ffmpeg e (cmd_pass1 i s v p (null_device e)) (files w))"
      using subprocess_run_ok_iff [of e w "cmd_pass1 i s v p (null_device e)"] by simp
    with Pair Inr c1 show ?thesis
      by (simp add: two_pass_encode_def calls_subprocess_run)
  qed
qed

lemma calls_one_pass_encode:
  "calls (snd (one_pass_encode e w i o' s v a p)) = calls w @ [Ffmpeg (cmd_single i o' s v a p)]"
  by (simp add: one_pass_encode_def calls_subprocess_run)

lemma calls_copy_and_size:
  "calls (snd (copy_and_size w i o')) = calls w @ [Copy i o']"
  by (simp add: copy_and_size_def shutil_copy_def Let_def split: option.split)

lemma calls_remove_pass_logs: "calls (remove_pass_logs w) = calls w"
  by (simp add: remove_pass_logs_def remove_if_exists_def)

lemma compress_video_error_preset:
  "get_preset p = Inl err \<Longrightarrow> compress_video e w i o' p tgt = (Inl err, w)"
  by (simp add: compress_video_def)

lemma compress_video_error_probe:
  "get_preset p = Inr cfg \<Longrightarrow> get_video_info e w i = Inl err \<Longrightarrow>
     compress_video e w i o' p tgt = (Inl err, w)"
  by (simp add: compress_video_def)

lemma compress_video_error_guard:
  assumes "get_preset p = Inr cfg"
    and "get_video_info e w i = Inr (wd, ht, d, k, s)"
    and "under_target s tgt = Inl err"
  shows "compress_video e w i o' p tgt = (Inl err, w)"
  using assms by (simp add: compress_video_def)

lemma compress_video_under_target:
  assumes "get_preset p = Inr cfg"
    and "get_video_info e w i = Inr (wd, ht, d, k, s)"
    and "under_target s tgt = Inr True"
  shows "compress_video e w i o' p tgt = copy_and_size w i o'"
  using assms by (simp add: compress_video_def)

lemma compress_video_target:
  assumes "get_preset p = Inr cfg"
    and "get_video_info e w i = Inr (wd, ht, d, k, s)"
    and "under_target s (Some t) = Inr False" and "t \<noteq> 0"
    and "target_video_kbps t d 96 = Inr vk"
  shows "compress_video e w i o' p (Some t) =
    (case two_pass_encode e w i o' (''scale=-2:'' @ str_int (max_height cfg)) vk 96 (preset cfg) of
       (Inl err, w1) \<Rightarrow> (Inl err, w1)
     | (Inr u, w1) \<Rightarrow> (get_file_size_mb (remove_pass_logs w1) o', remove_pass_logs w1))"
  using assms by (simp add: compress_video_def truthy_def Let_def)

lemma compress_video_target_error:
  assumes "get_preset p = Inr cfg"
    and "get_video_info e w i = Inr (wd, ht, d, k, s)"
    and "under_target s (Some t) = Inr False" and "t \<noteq> 0"
    and "target_video_kbps t d 96 = Inl err"
  shows "compress_video e w i o' p (Some t) = (Inl err, w)"
  using assms by (simp add: compress_video_def truthy_def Let_def)

lemma compress_video_crf:
  assumes "get_preset p = Inr cfg"
    and "get_video_info e w i = Inr (wd, ht, d, k, s)"
    and "under_target s tgt = Inr False" and "\<not> truthy tgt"
    and "crf_video_kbps k (video_kbps_mult cfg) = Inr vk"
  shows "compress_video e w i o' p tgt =
    (if k \<noteq> 0 \<and> k \<le> vk
     then copy_and_size w i o'
     else (case one_pass_encode e w i o' (''scale=-2:'' @ str_int (max_height cfg))
                  vk 96 (preset cfg) of
             (Inl err, w1) \<Rightarrow> (Inl err, w1)
           | (Inr u, w1) \<Rightarrow> (get_file_size_mb w1 o', w1)))"
  using assms by (simp add: compress_video_def Let_def)

lemma compress_video_crf_error:
  assumes "get_preset p = Inr cfg"
    and "get_video_info e w i = Inr (wd, ht, d, k, s)"
    and "under_target s tgt = Inr False" and "\<not> truthy tgt"
    and "crf_video_kbps k (video_kbps_mult cfg) = Inl err"
  shows "compress_video e w i o' p tgt = (Inl err, w)"
  using assms by (simp add: compress_video_def Let_def)

lemma calls_compress_video_target:
  assumes "get_preset p = Inr cfg"
    and "get_video_info e w i = Inr (wd, ht, d, k, s)"
    and "under_target s (Some t) = Inr False" and "t \<noteq> 0"
    and "target_video_kbps t d 96 = Inr vk"
  shows "calls (snd (compress_video e w i o' p (Some t))) =
     calls w @ Ffmpeg (cmd_pass1 i (''scale=-2:'' @ str_int (max_height cfg))
                          vk (preset cfg) (null_device e))
       # (if fst (ffmpeg e (cmd_pass1 i (''scale=-2:'' @ str_int (max_height cfg))
                          vk (preset cfg) (null_device e)) (files w))
          then [Ffmpeg (cmd_pass2 i o' (''scale=-2:'' @ str_int (max_height cfg))
                          vk 96 (preset cfg))]
          else [])"
proof -
  let ?tp = "two_pass_encode e w i o' (''scale=-2:'' @ str_int (max_height cfg))
            vk 96 (preset cfg)"
  have "calls (snd (compress_video e w i o' p (Some t))) = calls (snd ?tp)"
    unfolding compress_video_target [OF assms]
    by (cases ?tp) (simp add: calls_remove_pass_logs split: sum.split)
  then show ?thesis by (simp only: calls_two_pass_encode)
qed

lemma calls_compress_video_crf:
  assumes "get_preset p = Inr cfg"
    and "get_video_info e w i = Inr (wd, ht, d, k, s)"
    and "under_target s tgt = Inr False" and "\<not> truthy tgt"
    and "crf_video_kbps k (video_kbps_mult cfg) = Inr vk"
  shows "calls (snd (compress_video e w i o' p tgt)) =
     calls w @ [if k \<noteq> 0 \<and> k \<le> vk
                then Copy i o'
                else Ffmpeg (cmd_single i o' (''scale=-2:'' @ str_int (max_height cfg))
                       vk 96 (preset cfg))]"
proof (cases "k \<noteq> 0 \<and> k \<le> vk")
  case True
  then show ?thesis
    unfolding compress_video_crf [OF assms] by (simp add: calls_copy_and_size)
next
  case False
  let ?op = "one_pass_encode e w i o' (''scale=-2:'' @ str_int (max_height cfg))
                  vk 96 (preset cfg)"
  have "calls (snd (case ?op of (Inl err, w1) \<Rightarrow> (Inl err, w1)
           | (Inr u, w1) \<Rightarrow> (get_file_size_mb w1 o', w1))) = calls (snd ?op)"
    by (cases ?op) (simp split: sum.split)
  also have "\<dots> = calls w @ [Ffmpeg (cmd_single i o' (''scale=-2:'' @ str_int (max_height cfg))
                       vk 96 (preset cfg))]"
    by (rule calls_one_pass_encode)
  finally show ?thesis
    unfolding compress_video_crf [OF assms] using False by (simp only: if_False)
qed

section \<open>The bit rates\<close>

lemma max_trunc_floor:
  assumes "0 \<le> a" and "0 \<le> c"
  shows "max ((if 0 \<le> x then \<lfloor>x\<rfloor> else \<lceil>x\<rceil>) - a) c = max (\<lfloor>x\<rfloor> - a) c"
proof (cases "0 \<le> x")
  case True
  then show ?thesis by simp
next
  case False
  then have "\<lceil>x\<rceil> \<le> 0" and "\<lfloor>x\<rfloor> \<le> 0"
    by (simp_all add: ceiling_le_iff floor_le_iff)
  with assms have "max (\<lceil>x\<rceil> - a) c = c" and "max (\<lfloor>x\<rfloor> - a) c = c"
    by linarith+
  with False show ?thesis by (simp only: if_False)
qed

lemma target_video_kbps_floor:
  assumes "float_of_int (t * 8192) = Inr (Fin a)" and "d \<noteq> 0" and "round_float (a / d) = Fin q"
  shows "target_video_kbps t (Fin d) 96 = Inr (max (\<lfloor>q\<rfloor> - 96) 300)"
  using assms max_trunc_floor [of 96 300 q]
  by (simp add: target_video_kbps_def py_int_def)

lemma crf_video_kbps_floor:
  assumes "k \<noteq> 0" and "float_of_int k = Inr (Fin a)" and "fmul (Fin a) m = Fin q"
  shows "crf_video_kbps k m = Inr (max \<lfloor>q\<rfloor> 350)"
  using assms max_trunc_floor [of 0 350 q]
  by (simp add: crf_video_kbps_def py_int_def)

lemma crf_video_kbps_zero: "crf_video_kbps 0 m = Inr 1200"
  by (simp add: crf_video_kbps_def)

lemma crf_video_kbps_ge: "crf_video_kbps k m = Inr v \<Longrightarrow> 350 \<le> v"
  by (auto simp: crf_video_kbps_def split: if_splits sum.splits)

lemma target_video_kbps_ge: "target_video_kbps t d a = Inr v \<Longrightarrow> 300 \<le> v"
  by (auto simp: target_video_kbps_def split: sum.splits)

lemma crf_video_kbps_one:
  assumes "k \<noteq> 0" and "\<bar>k\<bar> < 2 ^ 53"
  shows "crf_video_kbps k (Fin 1) = Inr (max k 350)"
  using crf_video_kbps_floor [OF assms(1) float_of_int_exact [OF assms(2)], of "Fin 1" "of_int k"]
    round_float_of_int [OF assms(2)]
  by simp

lemma crf_video_kbps_half:
  assumes "k \<noteq> 0" and "\<bar>k\<bar> < 2 ^ 53"
  shows "crf_video_kbps k (Fin (1 / 2)) = Inr (max \<lfloor>of_int k * (1 / 2 :: rat)\<rfloor> 350)"
proof -
  have "round_float (of_int k * (1 / 2)) = Fin (of_int k * (1 / 2))"
    using round_float_exact [of k "- 1"] assms(2) by (simp add: pow2_def)
  then have "fmul (Fin (of_int k)) (Fin (1 / 2)) = Fin (of_int k * (1 / 2))" by simp
  from crf_video_kbps_floor [OF assms(1) float_of_int_exact [OF assms(2)] this]
  show ?thesis .
qed

lemma crf_video_kbps_three_quarters:
  assumes "k \<noteq> 0" and "\<bar>k\<bar> < 2 ^ 51"
  shows "crf_video_kbps k (Fin (3 / 4)) = Inr (max \<lfloor>of_int k * (3 / 4 :: rat)\<rfloor> 350)"
proof -
  from assms(2) have k53: "\<bar>k\<bar> < 2 ^ 53" and k3: "\<bar>3 * k\<bar> < 2 ^ 53" by simp_all
  have rf: "round_float (of_int (3 * k) * pow2 (- 2)) = Fin (of_int (3 * k) * pow2 (- 2))"
    using k3 by (intro round_float_exact) simp_all
  have eq: "of_int (3 * k) * pow2 (- 2) = (of_int k * (3 / 4) :: rat)"
    by (simp add: pow2_def)
  have "round_float (of_int k * (3 / 4)) = Fin (of_int k * (3 / 4))"
    using rf unfolding eq .
  then have "fmul (Fin (of_int k)) (Fin (3 / 4)) = Fin (of_int k * (3 / 4))" by simp
  from crf_video_kbps_floor [OF assms(1) float_of_int_exact [OF k53] this]
  show ?thesis .
qed

section \<open>The sample inputs\<close>

lemma str_int_720: "str_int 720 = ''720''"
  by (simp add: str_int_def str_nat.simps)

lemma str_int_480: "str_int 480 = ''480''"
  by (simp add: str_int_def str_nat.simps)

lemma str_int_1080: "str_int 1080 = ''1080''"
  by (simp add: str_int_def str_nat.simps)

lemma calls_world0: "calls world0 = []"
  by (simp add: world0_def)

lemma get_file_size_mb_sample:
  "get_file_size_mb world0 ''in.mp4'' = Inr (Fin (10380903 / 1048576))"
  by (simp add: get_file_size_mb_def world0_def round_float_sample_size finite_or_overflow_def)

lemma get_video_info_sample:
  "get_video_info env_ok world0 ''in.mp4'' =
     Inr (1920, 1080, Fin 100, 2000, Fin (10380903 / 1048576))"
  by (simp add: get_video_info_def env_ok_def sample_probe_def get_file_size_mb_sample)

lemma get_video_info_sample_pass2_fails:
  "get_video_info env_pass2_fails world0 ''in.mp4'' =
     Inr (1920, 1080, Fin 100, 2000, Fin (10380903 / 1048576))"
  by (simp add: get_video_info_def env_pass2_fails_def sample_probe_def get_file_size_mb_sample)

lemma get_video_info_huge:
  "get_video_info env_huge world0 ''in.mp4'' =
     Inr (1920, 1080, Fin 100, 9007199254740993, Fin (10380903 / 1048576))"
  by (simp add: get_video_info_def env_huge_def huge_probe_def sample_probe_def
      get_file_size_mb_sample)

lemma float_of_int_10: "float_of_int 10 = Inr (Fin 10)"
  using float_of_int_exact [of 10] by simp

lemma float_of_int_11: "float_of_int 11 = Inr (Fin 11)"
  using float_of_int_exact [of 11] by simp

lemma float_of_int_0: "float_of_int 0 = Inr (Fin 0)"
  using float_of_int_exact [of 0] by simp

lemma sample_size_not_under_10:
  "under_target (Fin (10380903 / 1048576)) (Some 10) = Inr False"
  by (simp add: under_target_def float_of_int_10 ten_minus_two_tenths)

lemma sample_size_under_11:
  "under_target (Fin (10380903 / 1048576)) (Some 11) = Inr True"
  by (simp add: under_target_def float_of_int_11 eleven_minus_two_tenths)

lemma sample_size_not_under_0:
  "under_target (Fin (10380903 / 1048576)) (Some 0) = Inr False"
  by (simp add: under_target_def float_of_int_0 zero_minus_two_tenths)

lemma not_under_no_target: "under_target s None = Inr False"
  by (simp add: under_target_def)

lemma target_video_kbps_sample: "target_video_kbps 10 (Fin 100) 96 = Inr 723"
proof -
  have a: "float_of_int (10 * 8192) = Inr (Fin 81920)"
    using float_of_int_exact [of 81920] by simp
  have f: "\<lfloor>3602879701896397 / 4398046511104 :: rat\<rfloor> = 819"
    by (simp add: floor_eq_iff)
  from target_video_kbps_floor [OF a _ round_float_819_2] show ?thesis
    by (simp add: f)
qed

lemma target_video_kbps_rounded:
  "target_video_kbps 10 (Fin (3602879701896397 / 35184372088832)) 96 = Inr 704"
proof -
  have a: "float_of_int (10 * 8192) = Inr (Fin 81920)"
    using float_of_int_exact [of 81920] by simp
  from target_video_kbps_floor [OF a _ round_float_800] show ?thesis
    by simp
qed

lemma crf_video_kbps_sample: "crf_video_kbps 2000 (Fin (3 / 4)) = Inr 1500"
proof -
  have "\<lfloor>of_int 2000 * (3 / 4 :: rat)\<rfloor> = 1500" by (simp add: floor_eq_iff)
  with crf_video_kbps_three_quarters [of 2000] show ?thesis by simp
qed

lemma crf_video_kbps_sample_strong: "crf_video_kbps 2000 (Fin (1 / 2)) = Inr 1000"
proof -
  have "\<lfloor>of_int 2000 * (1 / 2 :: rat)\<rfloor> = 1000" by (simp add: floor_eq_iff)
  with crf_video_kbps_half [of 2000] show ?thesis by simp
qed

lemma crf_video_kbps_sample_light: "crf_video_kbps 2000 (Fin 1) = Inr 2000"
  using crf_video_kbps_one [of 2000] by simp

lemma crf_video_kbps_huge: "crf_video_kbps 9007199254740993 (Fin 1) = Inr 9007199254740992"
proof -
  have a: "float_of_int 9007199254740993 = Inr (Fin 9007199254740992)"
    using round_float_tie_53 by (simp add: float_of_int_def finite_or_overflow_def)
  have "round_float (of_int 9007199254740992) = Fin (of_int 9007199254740992)"
    using round_float_exact [of 1 53] by (simp add: pow2_def)
  then have m: "fmul (Fin 9007199254740992) (Fin 1) = Fin 9007199254740992" by simp
  from crf_video_kbps_floor [OF _ a m] show ?thesis by simp
qed

lemma crf_video_kbps_tie:
  "crf_video_kbps 6004799503160661 (Fin (3 / 4)) = Inr 4503599627370496"
proof -
  have a: "float_of_int 6004799503160661 = Inr (Fin 6004799503160661)"
    using float_of_int_exact [of 6004799503160661] by simp
  have m: "fmul (Fin 6004799503160661) (Fin (3 / 4)) = Fin 4503599627370496"
    using round_float_tie_three_quarters by simp
  from crf_video_kbps_floor [OF _ a m] show ?thesis by simp
qed

section \<open>The target mode\<close>

text \<open>
  Claim C3, as amended. When a target size is given and is not zero, the source is not
  already 0.2 MB under it, the duration is finite and positive and the float
  arithmetic does not overflow, \<open>compress_video\<close> runs the two-pass encode: the first
  pass, and the second when the first exits with status 0, both at the video bit rate
  \<open>max (\<lfloor>q\<rfloor> - 96) 300\<close>, where \<open>q\<close> is the double nearest to
  \<open>target * 8192 / duration\<close>. A duration of 100 seconds and a target of 10 MB give
  723 kbit/s.
\<close>

theorem two_pass_plan_for_nonzero_target:
  assumes "get_preset p = Inr cfg"
    and "get_video_info e w i = Inr (wd, ht, Fin d, k, s)"
    and "t \<noteq> 0" and "under_target s (Some t) = Inr False" and "0 < d"
    and "float_of_int (t * 8192) = Inr (Fin a)" and "round_float (a / d) = Fin q"
  shows "calls (snd (compress_video e w i o' p (Some t))) =
     calls w @ Ffmpeg (cmd_pass1 i (''scale=-2:'' @ str_int (max_height cfg))
                          (max (\<lfloor>q\<rfloor> - 96) 300) (preset cfg) (null_device e))
       # (if fst (ffmpeg e (cmd_pass1 i (''scale=-2:'' @ str_int (max_height cfg))
                          (max (\<lfloor>q\<rfloor> - 96) 300) (preset cfg) (null_device e))
                   (files w))
          then [Ffmpeg (cmd_pass2 i o' (''scale=-2:'' @ str_int (max_height cfg))
                          (max (\<lfloor>q\<rfloor> - 96) 300) 96 (preset cfg))]
          else [])
     \<and> target_video_kbps 10 (Fin 100) 96 = Inr 723"
proof -
  from assms(5) have dz: "d \<noteq> 0" by simp
  note vk = target_video_kbps_floor [OF assms(6) dz assms(7)]
  show ?thesis
  proof (rule conjI)
    show "target_video_kbps 10 (Fin 100) 96 = Inr 723" by (rule target_video_kbps_sample)
  qed (rule calls_compress_video_target [OF assms(1,2,4,3) vk])
qed

theorem two_pass_plan_for_nonzero_target_witness:
  "calls (snd (compress_video env_ok world0 ''in.mp4'' ''out.mp4'' ''medium'' (Some 10))) =
     [Ffmpeg (cmd_pass1 ''in.mp4'' ''scale=-2:720'' 723 ''slow'' ''/dev/null''),
      Ffmpeg (cmd_pass2 ''in.mp4'' ''out.mp4'' ''scale=-2:720'' 723 96 ''slow'')]"
proof -
  have f: "\<lfloor>3602879701896397 / 4398046511104 :: rat\<rfloor> = 819"
    by (simp add: floor_eq_iff)
  have t: "(10::int) \<noteq> 0" and d: "(0::rat) < 100" by simp_all
  have a: "float_of_int (10 * 8192) = Inr (Fin 81920)"
    using float_of_int_exact [of 81920] by simp
  from two_pass_plan_for_nonzero_target [OF get_preset_medium get_video_info_sample t
      sample_size_not_under_10 d a round_float_819_2, of "''out.mp4''"]
  show ?thesis
    by (simp add: f str_int_720 null_device_def env_ok_def ffmpeg_ok_def calls_world0 cmd_pass1_def)
qed

text \<open>
  The claim as stated covers every target that is present and takes the floor of the
  exact quotient. A target of \<open>0\<close> is present, and the source of 9.9 MB is not 0.2 MB
  under it, yet \<^verbatim>\<open>if target_mb:\<close> is false for it: the run is one single-pass command
  at 1500 kbit/s, not two passes at 300. And for a target of 10 MB and the duration
  that is the double of 102.4, the quotient rounds up to 800, so the rate is 704, where
  the floor of the exact quotient gives 703.
\<close>

theorem zero_target_is_encoded_in_one_pass:
  "get_video_info env_ok world0 ''in.mp4'' =
     Inr (1920, 1080, Fin 100, 2000, Fin (10380903 / 1048576))
   \<and> under_target (Fin (10380903 / 1048576)) (Some 0) = Inr False
   \<and> calls (snd (compress_video env_ok world0 ''in.mp4'' ''out.mp4'' ''medium'' (Some 0))) =
       [Ffmpeg (cmd_single ''in.mp4'' ''out.mp4'' ''scale=-2:720'' 1500 96 ''slow'')]
   \<and> cmd_pass (cmd_single ''in.mp4'' ''out.mp4'' ''scale=-2:720'' 1500 96 ''slow'') = None
   \<and> target_video_kbps 10 (Fin (3602879701896397 / 35184372088832)) 96 = Inr 704
   \<and> max (\<lfloor>of_int 10 * 8192 / (3602879701896397 / 35184372088832 :: rat)\<rfloor> - 96) 300 = 703"
proof -
  have nt: "\<not> truthy (Some 0)" by (simp add: truthy_def)
  have c: "calls (snd (compress_video env_ok world0 ''in.mp4'' ''out.mp4'' ''medium'' (Some 0))) =
       [Ffmpeg (cmd_single ''in.mp4'' ''out.mp4'' ''scale=-2:720'' 1500 96 ''slow'')]"
    using calls_compress_video_crf [OF get_preset_medium get_video_info_sample
        sample_size_not_under_0 nt, of 1500 "''out.mp4''"]
    by (simp add: crf_video_kbps_sample str_int_720 calls_world0)
  have f: "\<lfloor>of_int 10 * 8192 / (3602879701896397 / 35184372088832 :: rat)\<rfloor> = 799"
    by (simp add: floor_eq_iff)
  show ?thesis
    by (simp only: get_video_info_sample sample_size_not_under_0 c target_video_kbps_rounded f)
      (simp add: cmd_single_def)
qed

lemma get_video_info_cases:
  obtains err where "get_video_info e w i = Inl err"
  | wd ht d k s where "get_video_info e w i = Inr (wd, ht, d, k, s)"
  by (cases "get_video_info e w i") auto

lemma under_target_cases:
  obtains err where "under_target s tgt = Inl err"
  | "under_target s tgt = Inr True" | "under_target s tgt = Inr False"
  by (cases "under_target s tgt") auto

section \<open>The floor of the video bit rate\<close>

text \<open>
  Claim C4. Whatever the inputs, every transcoder command that \<open>compress_video\<close> issues
  carries a video bit rate of at least 300 kbit/s when a target size is given and of at
  least 350 kbit/s when none is given; the runs that end in a copy or in an error issue
  no transcoder command.
\<close>

theorem video_kbps_never_below_floor:
  "\<exists>new. calls (snd (compress_video e w i o' p tgt)) = calls w @ new
     \<and> (\<forall>c. Ffmpeg c \<in> set new \<longrightarrow> (if tgt = None then 350 else 300) \<le> cmd_video_kbps c)"
proof (cases "get_preset p")
  case (Inl err)
  then show ?thesis by (simp add: compress_video_error_preset)
next
  case (Inr cfg)
  show ?thesis
  proof (cases rule: get_video_info_cases [of e w i])
    case (1 err)
    with Inr show ?thesis by (simp add: compress_video_error_probe)
  next
    case (2 wd ht d k s)
    show ?thesis
    proof (cases rule: under_target_cases [of s tgt])
      case (1 err)
      then show ?thesis by (simp add: compress_video_error_guard [OF Inr 2])
    next
      case 2
      then show ?thesis
        by (simp add: compress_video_under_target [OF Inr \<open>get_video_info e w i = _\<close>]
            calls_copy_and_size)
    next
      case nu: 3
      note info = \<open>get_video_info e w i = Inr (wd, ht, d, k, s)\<close>
      show ?thesis
      proof (cases "truthy tgt")
        case True
        then obtain t where t: "tgt = Some t" "t \<noteq> 0"
          by (auto simp: truthy_def split: option.splits)
        from nu t have nu': "under_target s (Some t) = Inr False" by simp
        show ?thesis
        proof (cases "target_video_kbps t d 96")
          case (Inl err)
          from compress_video_target_error [OF Inr info nu' t(2) Inl] t
          show ?thesis by simp
        next
          case vk: (Inr v)
          from calls_compress_video_target [OF Inr info nu' t(2) vk, of o'] t
          show ?thesis
            using target_video_kbps_ge [OF vk]
            by (auto simp: cmd_pass1_def cmd_pass2_def)
        qed
      next
        case False
        show ?thesis
        proof (cases "crf_video_kbps k (video_kbps_mult cfg)")
          case (Inl err)
          from compress_video_crf_error [OF Inr info nu False Inl]
          show ?thesis by simp
        next
          case vk: (Inr v)
          from calls_compress_video_crf [OF Inr info nu False vk, of o']
          show ?thesis
            using crf_video_kbps_ge [OF vk]
            by (auto simp: cmd_single_def)
        qed
      qed
    qed
  qed
qed

theorem video_kbps_never_below_floor_witness:
  "calls (snd (compress_video env_ok world0 ''in.mp4'' ''out.mp4'' ''strong'' None)) =
     [Ffmpeg (cmd_single ''in.mp4'' ''out.mp4'' ''scale=-2:480'' 1000 96 ''medium'')]
   \<and> (350::int) \<le> cmd_video_kbps (cmd_single ''in.mp4'' ''out.mp4'' ''scale=-2:480'' 1000 96 ''medium'')"
proof -
  have nt: "\<not> truthy None" by (simp add: truthy_def)
  have c: "calls (snd (compress_video env_ok world0 ''in.mp4'' ''out.mp4'' ''strong'' None)) =
     [Ffmpeg (cmd_single ''in.mp4'' ''out.mp4'' ''scale=-2:480'' 1000 96 ''medium'')]"
    using calls_compress_video_crf [OF get_preset_strong get_video_info_sample
        not_under_no_target nt, of 1000 "''out.mp4''"]
    by (simp add: crf_video_kbps_sample_strong calls_world0 str_int_480)
  from video_kbps_never_below_floor [of env_ok world0 "''in.mp4''" "''out.mp4''" "''strong''" None]
  obtain new where
    "calls (snd (compress_video env_ok world0 ''in.mp4'' ''out.mp4'' ''strong'' None)) = calls world0 @ new"
    and b: "\<forall>c. Ffmpeg c \<in> set new \<longrightarrow> (if (None :: int option) = None then 350 else 300) \<le> cmd_video_kbps c"
    by blast
  with c have "new = [Ffmpeg (cmd_single ''in.mp4'' ''out.mp4'' ''scale=-2:480'' 1000 96 ''medium'')]"
    by (simp add: calls_world0)
  with b have "(350::int) \<le> cmd_video_kbps (cmd_single ''in.mp4'' ''out.mp4'' ''scale=-2:480'' 1000 96 ''medium'')"
    by simp
  with c show ?thesis by simp
qed

section \<open>The copy under a target\<close>

lemma under_target_Some:
  "float_of_int t = Inr ft \<Longrightarrow> under_target s (Some t) = Inr (fle s (fsub ft two_tenths))"
  by (simp add: under_target_def)

text \<open>
  Claim C5, as amended. When a target size is given, is not zero and converts to a
  float, \<open>compress_video\<close> makes the file copy as its only external call if and only if
  the size of the source is at most the target minus 0.2 MB, the difference and the
  comparison being those of doubles; otherwise, when the bit rate of the target mode
  is computed, the first call is the first pass of the two-pass encode. A source of
  9.7 MB is under a target of 10 MB, one of 9.9 MB is not.
\<close>

theorem copy_iff_under_nonzero_target:
  assumes "get_preset p = Inr cfg"
    and "get_video_info e w i = Inr (wd, ht, d, k, s)"
    and "t \<noteq> 0" and "float_of_int t = Inr ft"
  shows "(calls (snd (compress_video e w i o' p (Some t))) = calls w @ [Copy i o']
            \<longleftrightarrow> fle s (fsub ft two_tenths))
     \<and> (\<not> fle s (fsub ft two_tenths) \<and> target_video_kbps t d 96 = Inr vk \<longrightarrow>
          (\<exists>rest. calls (snd (compress_video e w i o' p (Some t))) =
             calls w @ Ffmpeg (cmd_pass1 i (''scale=-2:'' @ str_int (max_height cfg))
                                 vk (preset cfg) (null_device e)) # rest))
     \<and> under_target (round_float (97 / 10)) (Some 10) = Inr True
     \<and> under_target (round_float (99 / 10)) (Some 10) = Inr False"
proof (intro conjI impI)
  note ut = under_target_Some [OF assms(4), of s]
  show "calls (snd (compress_video e w i o' p (Some t))) = calls w @ [Copy i o']
            \<longleftrightarrow> fle s (fsub ft two_tenths)"
  proof (cases "fle s (fsub ft two_tenths)")
    case True
    with ut have "under_target s (Some t) = Inr True" by simp
    from compress_video_under_target [OF assms(1,2) this, of o'] True
    show ?thesis by (simp add: calls_copy_and_size)
  next
    case False
    with ut have nu: "under_target s (Some t) = Inr False" by simp
    have "calls (snd (compress_video e w i o' p (Some t))) \<noteq> calls w @ [Copy i o']"
    proof (cases "target_video_kbps t d 96")
      case (Inl err)
      from compress_video_target_error [OF assms(1,2) nu assms(3) Inl, of o']
      show ?thesis by simp
    next
      case (Inr v)
      from calls_compress_video_target [OF assms(1,2) nu assms(3) Inr, of o']
      show ?thesis by simp
    qed
    with False show ?thesis by simp
  qed
next
  assume a: "\<not> fle s (fsub ft two_tenths) \<and> target_video_kbps t d 96 = Inr vk"
  with under_target_Some [OF assms(4), of s]
  have nu: "under_target s (Some t) = Inr False" by simp
  from a have vk: "target_video_kbps t d 96 = Inr vk" by simp
  from calls_compress_video_target [OF assms(1,2) nu assms(3) vk, of o']
  show "\<exists>rest. calls (snd (compress_video e w i o' p (Some t))) =
             calls w @ Ffmpeg (cmd_pass1 i (''scale=-2:'' @ str_int (max_height cfg))
                                 vk (preset cfg) (null_device e)) # rest"
    by blast
next
  show "under_target (round_float (97 / 10)) (Some 10) = Inr True"
    by (simp add: under_target_def float_of_int_10 ten_minus_two_tenths round_float_9_7)
next
  show "under_target (round_float (99 / 10)) (Some 10) = Inr False"
    by (simp add: under_target_def float_of_int_10 ten_minus_two_tenths round_float_9_9)
qed

theorem copy_iff_under_nonzero_target_witness:
  "calls (snd (compress_video env_ok world0 ''in.mp4'' ''out.mp4'' ''medium'' (Some 11))) =
     [Copy ''in.mp4'' ''out.mp4'']
   \<and> fle (Fin (10380903 / 1048576)) (fsub (Fin 11) two_tenths)
   \<and> calls (snd (compress_video env_ok world0 ''in.mp4'' ''out.mp4'' ''medium'' (Some 10))) \<noteq>
     [Copy ''in.mp4'' ''out.mp4'']
   \<and> \<not> fle (Fin (10380903 / 1048576)) (fsub (Fin 10) two_tenths)"
proof -
  have t: "(11::int) \<noteq> 0" "(10::int) \<noteq> 0" by simp_all
  from copy_iff_under_nonzero_target [OF get_preset_medium get_video_info_sample t(1)
      float_of_int_11, of "''out.mp4''"]
    copy_iff_under_nonzero_target [OF get_preset_medium get_video_info_sample t(2)
      float_of_int_10, of "''out.mp4''"]
  show ?thesis
    by (simp add: calls_world0 ten_minus_two_tenths eleven_minus_two_tenths)
qed

text \<open>
  The claim as stated covers every target that is present. With the target \<open>0\<close> the
  source of 9.9 MB is not 0.2 MB under the target, yet the run is a copy: the target
  mode is skipped and the normal mode copies, as the preset \<open>light\<close> does not lower the
  bit rate. And with the target \<open>2 ^ 1024\<close>, which the source is far under, the
  subtraction raises \<^verbatim>\<open>OverflowError\<close> and nothing is copied.
\<close>

theorem zero_target_low_bitrate_is_copied:
  "get_video_info env_ok world0 ''in.mp4'' =
     Inr (1920, 1080, Fin 100, 2000, Fin (10380903 / 1048576))
   \<and> under_target (Fin (10380903 / 1048576)) (Some 0) = Inr False
   \<and> calls (snd (compress_video env_ok world0 ''in.mp4'' ''out.mp4'' ''light'' (Some 0))) =
       [Copy ''in.mp4'' ''out.mp4'']
   \<and> (10380903 / 1048576 :: rat) \<le> of_int (2 ^ 1024) - 2 / 10
   \<and> compress_video env_ok world0 ''in.mp4'' ''out.mp4'' ''light'' (Some (2 ^ 1024)) =
       (Inl OverflowError, world0)"
proof -
  have nt: "\<not> truthy (Some 0)" by (simp add: truthy_def)
  have c: "calls (snd (compress_video env_ok world0 ''in.mp4'' ''out.mp4'' ''light'' (Some 0))) =
       [Copy ''in.mp4'' ''out.mp4'']"
    using calls_compress_video_crf [OF get_preset_light get_video_info_sample
        sample_size_not_under_0 nt, of 2000 "''out.mp4''"]
    by (simp add: crf_video_kbps_sample_light calls_world0)
  have "float_of_int (2 ^ 1024) = Inl OverflowError"
    by (rule float_of_int_overflow) simp
  then have g: "under_target (Fin (10380903 / 1048576)) (Some (2 ^ 1024)) = Inl OverflowError"
    by (simp add: under_target_def)
  note o = compress_video_error_guard [OF get_preset_light get_video_info_sample g, of "''out.mp4''"]
  have le: "(10380903 / 1048576 :: rat) \<le> of_int (2 ^ 1024) - 2 / 10" by simp
  show ?thesis
    by (simp only: get_video_info_sample sample_size_not_under_0 c o le simp_thms)
qed

section \<open>The normal mode\<close>



text \<open>
  Claim C7, as amended. The video bit rate of the normal mode is 1200 when the source
  bit rate is zero, for every multiplier, and otherwise \<open>max \<lfloor>q\<rfloor> 350\<close> where \<open>q\<close> is
  the double product of the bit rate and the multiplier. For the three multipliers of
  the table and a bit rate of magnitude below \<open>2 ^ 51\<close> the product is exact, so the
  rate is \<open>max \<lfloor>bitrate * multiplier\<rfloor> 350\<close>. With a bit rate of zero the run is the
  single pass at 1200 kbit/s; with a bit rate above the computed one it is the single
  pass at the computed one.
\<close>

theorem quality_mode_video_kbps:
  assumes "get_preset p = Inr cfg"
    and "get_video_info e w i = Inr (wd, ht, d, k, s)"
  shows "(k \<noteq> 0 \<and> float_of_int k = Inr (Fin a) \<and> fmul (Fin a) m = Fin q \<longrightarrow>
            crf_video_kbps k m = Inr (max \<lfloor>q\<rfloor> 350))
     \<and> crf_video_kbps 0 m = Inr 1200
     \<and> (k \<noteq> 0 \<and> \<bar>k\<bar> < 2 ^ 51 \<and> r \<in> {1, 3 / 4, 1 / 2} \<longrightarrow>
            crf_video_kbps k (Fin r) = Inr (max \<lfloor>of_int k * r\<rfloor> 350))
     \<and> (k = 0 \<longrightarrow>
          calls (snd (compress_video e w i o' p None)) =
            calls w @ [Ffmpeg (cmd_single i o' (''scale=-2:'' @ str_int (max_height cfg))
                         1200 96 (preset cfg))])
     \<and> (k \<noteq> 0 \<and> crf_video_kbps k (video_kbps_mult cfg) = Inr vk \<and> vk < k \<longrightarrow>
          calls (snd (compress_video e w i o' p None)) =
            calls w @ [Ffmpeg (cmd_single i o' (''scale=-2:'' @ str_int (max_height cfg))
                         vk 96 (preset cfg))])"
proof -
  have nt: "\<not> truthy None" by (simp add: truthy_def)
  note c = calls_compress_video_crf [OF assms(1,2) not_under_no_target nt, of _ o']
  show ?thesis
  proof (intro conjI impI)
    assume "k \<noteq> 0 \<and> float_of_int k = Inr (Fin a) \<and> fmul (Fin a) m = Fin q"
    then show "crf_video_kbps k m = Inr (max \<lfloor>q\<rfloor> 350)"
      using crf_video_kbps_floor [of k a m q] by simp
  next
    show "crf_video_kbps 0 m = Inr 1200" by (rule crf_video_kbps_zero)
  next
    assume a: "k \<noteq> 0 \<and> \<bar>k\<bar> < 2 ^ 51 \<and> r \<in> {1, 3 / 4, 1 / 2}"
    then have k0: "k \<noteq> 0" and k51: "\<bar>k\<bar> < 2 ^ 51" by simp_all
    from k51 have k53: "\<bar>k\<bar> < 2 ^ 53" by simp
    from a consider "r = 1" | "r = 3 / 4" | "r = 1 / 2" by auto
    then show "crf_video_kbps k (Fin r) = Inr (max \<lfloor>of_int k * r\<rfloor> 350)"
    proof cases
      case 1
      show ?thesis unfolding 1 using crf_video_kbps_one [OF k0 k53] by simp
    next
      case 2
      show ?thesis unfolding 2 by (rule crf_video_kbps_three_quarters [OF k0 k51])
    next
      case 3
      show ?thesis unfolding 3 by (rule crf_video_kbps_half [OF k0 k53])
    qed
  next
    assume "k = 0"
    with c [of 1200] show "calls (snd (compress_video e w i o' p None)) =
            calls w @ [Ffmpeg (cmd_single i o' (''scale=-2:'' @ str_int (max_height cfg))
                         1200 96 (preset cfg))]"
      by (simp add: crf_video_kbps_zero)
  next
    assume a: "k \<noteq> 0 \<and> crf_video_kbps k (video_kbps_mult cfg) = Inr vk \<and> vk < k"
    then have "\<not> (k \<noteq> 0 \<and> k \<le> vk)" by simp
    with c [of vk] a show "calls (snd (compress_video e w i o' p None)) =
            calls w @ [Ffmpeg (cmd_single i o' (''scale=-2:'' @ str_int (max_height cfg))
                         vk 96 (preset cfg))]"
      by simp
  qed
qed

theorem quality_mode_video_kbps_witness:
  "crf_video_kbps 2000 (Fin (3 / 4)) = Inr (max \<lfloor>of_int 2000 * (3 / 4 :: rat)\<rfloor> 350)
   \<and> crf_video_kbps 2000 (Fin (3 / 4)) = Inr 1500
   \<and> calls (snd (compress_video env_ok world0 ''in.mp4'' ''out.mp4'' ''medium'' None)) =
     [Ffmpeg (cmd_single ''in.mp4'' ''out.mp4'' ''scale=-2:720'' 1500 96 ''slow'')]"
proof -
  note t = quality_mode_video_kbps [OF get_preset_medium get_video_info_sample,
      where r = "3 / 4" and vk = 1500 and o' = "''out.mp4''"]
  have a: "crf_video_kbps 2000 (Fin (3 / 4)) = Inr (max \<lfloor>of_int 2000 * (3 / 4 :: rat)\<rfloor> 350)"
    using t by simp
  have b: "calls (snd (compress_video env_ok world0 ''in.mp4'' ''out.mp4'' ''medium'' None)) =
     [Ffmpeg (cmd_single ''in.mp4'' ''out.mp4'' ''scale=-2:720'' 1500 96 ''slow'')]"
    using t by (simp add: crf_video_kbps_sample calls_world0 str_int_720)
  from a b crf_video_kbps_sample show ?thesis by simp
qed

text \<open>
  The claim as stated takes the floor of the exact product. For the bit rate
  6004799503160661 and the multiplier 0.75 the product 4503599627370495.75 lies half
  way between two doubles and rounds up, so the rate is 4503599627370496, where the
  floor of the exact product gives 4503599627370495.
\<close>

theorem rounded_product_exceeds_floor:
  "crf_video_kbps 6004799503160661 (Fin (3 / 4)) = Inr 4503599627370496
   \<and> max \<lfloor>of_int 6004799503160661 * (3 / 4 :: rat)\<rfloor> 350 = 4503599627370495"
proof -
  have "\<lfloor>of_int 6004799503160661 * (3 / 4 :: rat)\<rfloor> = 4503599627370495"
    by (simp add: floor_eq_iff)
  then show ?thesis by (simp only: crf_video_kbps_tie) simp
qed

text \<open>
  Claim C10, as amended. With the preset \<open>light\<close> and no target size, every source
  whose bit rate is not zero and of magnitude below \<open>2 ^ 53\<close> kbit/s is copied: the run
  is the copy and nothing else, so no transcoder command is issued.
\<close>

theorem light_preset_always_copies:
  assumes "get_video_info e w i = Inr (wd, ht, d, k, s)" and "k \<noteq> 0" and "\<bar>k\<bar> < 2 ^ 53"
  shows "calls (snd (compress_video e w i o' ''light'' None)) = calls w @ [Copy i o']
     \<and> compress_video e w i o' ''light'' None = copy_and_size w i o'"
proof -
  have nt: "\<not> truthy None" by (simp add: truthy_def)
  have vk: "crf_video_kbps k (video_kbps_mult
      \<lparr>max_height = 1080, video_kbps_mult = Fin 1, crf = 20, preset = ''slow''\<rparr>) = Inr (max k 350)"
    using crf_video_kbps_one [OF assms(2,3)] by simp
  from calls_compress_video_crf [OF get_preset_light assms(1) not_under_no_target nt vk, of o']
    compress_video_crf [OF get_preset_light assms(1) not_under_no_target nt vk, of o'] assms(2)
  show ?thesis by simp
qed

theorem light_preset_always_copies_witness:
  "calls (snd (compress_video env_ok world0 ''in.mp4'' ''out.mp4'' ''light'' None)) =
     [Copy ''in.mp4'' ''out.mp4'']
   \<and> compress_video env_ok world0 ''in.mp4'' ''out.mp4'' ''light'' None =
       copy_and_size world0 ''in.mp4'' ''out.mp4''"
proof -
  have "(2000::int) \<noteq> 0" and "\<bar>2000::int\<bar> < 2 ^ 53" by simp_all
  note t = light_preset_always_copies [OF get_video_info_sample this, of "''out.mp4''"]
  show ?thesis using t [unfolded calls_world0 append_Nil] .
qed

text \<open>
  The claim as stated covers every bit rate that is not zero. A bit rate of \<open>2 ^ 53 + 1\<close>
  kbit/s is not a double: its float is \<open>2 ^ 53\<close>, so the computed rate is below the
  source's and the run is the single-pass encode, not a copy.
\<close>

theorem huge_bitrate_is_encoded_with_light:
  "get_video_info env_huge world0 ''in.mp4'' =
     Inr (1920, 1080, Fin 100, 9007199254740993, Fin (10380903 / 1048576))
   \<and> crf_video_kbps 9007199254740993 (Fin 1) = Inr 9007199254740992
   \<and> calls (snd (compress_video env_huge world0 ''in.mp4'' ''out.mp4'' ''light'' None)) =
       [Ffmpeg (cmd_single ''in.mp4'' ''out.mp4'' ''scale=-2:1080'' 9007199254740992 96 ''slow'')]"
proof -
  have nt: "\<not> truthy None" by (simp add: truthy_def)
  have vk: "crf_video_kbps 9007199254740993 (video_kbps_mult
      \<lparr>max_height = 1080, video_kbps_mult = Fin 1, crf = 20, preset = ''slow''\<rparr>) =
      Inr 9007199254740992"
    using crf_video_kbps_huge by simp
  have c: "calls (snd (compress_video env_huge world0 ''in.mp4'' ''out.mp4'' ''light'' None)) =
       [Ffmpeg (cmd_single ''in.mp4'' ''out.mp4'' ''scale=-2:1080'' 9007199254740992 96 ''slow'')]"
    using calls_compress_video_crf [OF get_preset_light get_video_info_huge
        not_under_no_target nt vk, of "''out.mp4''"]
    by (simp add: calls_world0 str_int_1080)
  show ?thesis by (simp only: get_video_info_huge crf_video_kbps_huge c simp_thms)
qed

section \<open>The statistics files of the two-pass encode\<close>

lemma files_remove_pass_logs:
  "files (remove_pass_logs w) ''ffmpeg2pass-0.log'' = None
   \<and> files (remove_pass_logs w) ''ffmpeg2pass-0.log.mbtree'' = None"
  by (simp add: remove_pass_logs_def remove_if_exists_def)

lemma pass_logs_removed_after_two_passes:
  assumes "get_preset p = Inr cfg"
    and "get_video_info e w i = Inr (wd, ht, d, k, s)"
    and "under_target s (Some t) = Inr False" and "t \<noteq> 0"
    and "target_video_kbps t d 96 = Inr vk"
    and "fst (two_pass_encode e w i o' (''scale=-2:'' @ str_int (max_height cfg))
            vk 96 (preset cfg)) = Inr u"
  shows "files (snd (compress_video e w i o' p (Some t))) ''ffmpeg2pass-0.log'' = None
     \<and> files (snd (compress_video e w i o' p (Some t))) ''ffmpeg2pass-0.log.mbtree'' = None"
proof -
  obtain r w1 where tp: "two_pass_encode e w i o' (''scale=-2:'' @ str_int (max_height cfg))
            vk 96 (preset cfg) = (r, w1)"
    by (cases "two_pass_encode e w i o' (''scale=-2:'' @ str_int (max_height cfg))
            vk 96 (preset cfg)")
  with assms(6) have "r = Inr u" by simp
  with tp show ?thesis
    unfolding compress_video_target [OF assms(1-5)]
    by (simp add: files_remove_pass_logs)
qed

text \<open>
  Claim C1 says that the two statistics files are deleted after every two-pass attempt,
  failed or not. The clean-up loop of \<open>compress_video\<close> follows the call of
  \<^verbatim>\<open>_two_pass_encode\<close> with no \<^verbatim>\<open>try\<close> around it, so it is reached only when both
  passes exit with status 0 (\<open>pass_logs_removed_after_two_passes\<close>). Here the first
  pass writes the two files and the second pass exits non-zero: the run ends in
  \<^verbatim>\<open>CalledProcessError\<close> and both files are still on disk.
\<close>

theorem pass_logs_remain_when_second_pass_fails:
  "compress_video env_pass2_fails world0 ''in.mp4'' ''out.mp4'' ''medium'' (Some 10) =
     (Inl (CalledProcessError (cmd_pass2 ''in.mp4'' ''out.mp4'' ''scale=-2:720'' 723 96 ''slow'')),
      \<lparr>files = [''in.mp4'' \<mapsto> 10380903, ''ffmpeg2pass-0.log'' \<mapsto> 4096,
                ''ffmpeg2pass-0.log.mbtree'' \<mapsto> 65536],
       calls = [Ffmpeg (cmd_pass1 ''in.mp4'' ''scale=-2:720'' 723 ''slow'' ''/dev/null''),
                Ffmpeg (cmd_pass2 ''in.mp4'' ''out.mp4'' ''scale=-2:720'' 723 96 ''slow'')]\<rparr>)
   \<and> files (snd (compress_video env_pass2_fails world0 ''in.mp4'' ''out.mp4'' ''medium'' (Some 10)))
        ''ffmpeg2pass-0.log'' = Some 4096
   \<and> files (snd (compress_video env_pass2_fails world0 ''in.mp4'' ''out.mp4'' ''medium'' (Some 10)))
        ''ffmpeg2pass-0.log.mbtree'' = Some 65536"
proof -
  have "(10::int) \<noteq> 0" by simp
  note cv = compress_video_target [OF get_preset_medium get_video_info_sample_pass2_fails
      sample_size_not_under_10 this target_video_kbps_sample, of "''out.mp4''"]
  have tp: "two_pass_encode env_pass2_fails world0 ''in.mp4'' ''out.mp4'' ''scale=-2:720'' 723 96 ''slow'' =
     (Inl (CalledProcessError (cmd_pass2 ''in.mp4'' ''out.mp4'' ''scale=-2:720'' 723 96 ''slow'')),
      \<lparr>files = [''in.mp4'' \<mapsto> 10380903, ''ffmpeg2pass-0.log'' \<mapsto> 4096,
                ''ffmpeg2pass-0.log.mbtree'' \<mapsto> 65536],
       calls = [Ffmpeg (cmd_pass1 ''in.mp4'' ''scale=-2:720'' 723 ''slow'' ''/dev/null''),
                Ffmpeg (cmd_pass2 ''in.mp4'' ''out.mp4'' ''scale=-2:720'' 723 96 ''slow'')]\<rparr>)"
    by (simp add: two_pass_encode_def subprocess_run_def env_pass2_fails_def
        ffmpeg_pass2_fails_def null_device_def world0_def cmd_pass1_def cmd_pass2_def)
  have "compress_video env_pass2_fails world0 ''in.mp4'' ''out.mp4'' ''medium'' (Some 10) =
     (Inl (CalledProcessError (cmd_pass2 ''in.mp4'' ''out.mp4'' ''scale=-2:720'' 723 96 ''slow'')),
      \<lparr>files = [''in.mp4'' \<mapsto> 10380903, ''ffmpeg2pass-0.log'' \<mapsto> 4096,
                ''ffmpeg2pass-0.log.mbtree'' \<mapsto> 65536],
       calls = [Ffmpeg (cmd_pass1 ''in.mp4'' ''scale=-2:720'' 723 ''slow'' ''/dev/null''),
                Ffmpeg (cmd_pass2 ''in.mp4'' ''out.mp4'' ''scale=-2:720'' 723 96 ''slow'')]\<rparr>)"
    unfolding cv by (simp add: str_int_720 tp)
  then show ?thesis by simp
qed

lemma pass_logs_removed_sample:
  "files (snd (compress_video env_ok world0 ''in.mp4'' ''out.mp4'' ''medium'' (Some 10)))
        ''ffmpeg2pass-0.log'' = None
   \<and> fst (compress_video env_ok world0 ''in.mp4'' ''out.mp4'' ''medium'' (Some 10)) = Inr (Fin 5)"
proof -
  have "(10::int) \<noteq> 0" by simp
  note cv = compress_video_target [OF get_preset_medium get_video_info_sample
      sample_size_not_under_10 this target_video_kbps_sample, of "''out.mp4''"]
  have five: "round_float 5 = Fin 5" using round_float_of_int [of 5] by simp
  show ?thesis
    unfolding cv
    by (simp add: str_int_720 two_pass_encode_def subprocess_run_def
        env_ok_def ffmpeg_ok_def null_device_def world0_def cmd_pass1_def cmd_pass2_def
        files_remove_pass_logs get_file_size_mb_def remove_pass_logs_def remove_if_exists_def
        five finite_or_overflow_def)
qed

section \<open>The target size entry\<close>

lemma set_status_queue: "task_queue (set_status app text) = task_queue app"
  by (simp add: set_status_def)

lemma set_status_preset: "current_preset (set_status app text) = current_preset app"
  by (simp add: set_status_def)

lemma log_msg_queue: "task_queue (log_msg app text) = task_queue app"
  by (simp add: log_msg_def split: option.split)

lemma log_msg_preset: "current_preset (log_msg app text) = current_preset app"
  by (simp add: log_msg_def split: option.split)

lemma log_msg_status: "status_var (log_msg app text) = status_var app"
  by (simp add: log_msg_def split: option.split)

lemma get_target_mb_invalid:
  assumes "targetEntry app = Some entry_text"
    and "strip entry_text \<noteq> []"
    and "int_of_string (strip entry_text) = None"
  shows "get_target_mb app = (Inr None, set_status app ''Error: Target MB must be a number'')"
  using assms by (simp add: get_target_mb_def)

text \<open>
  Claim C2, as amended. When a file was chosen and the text of the target entry is not
  empty and not a number, \<open>choose_file\<close> returns normally, the status shows the error
  text (the window being built), and the job is put on the queue all the same, with no
  target size, that is for the normal mode.
\<close>

theorem invalid_target_text_reported_and_job_enqueued:
  assumes "targetEntry app = Some entry_text"
    and "strip entry_text \<noteq> []"
    and "int_of_string (strip entry_text) = None"
    and "file_path \<noteq> []"
  shows "fst (choose_file file_path existing app) = Inr ()
     \<and> task_queue (snd (choose_file file_path existing app)) =
         task_queue app @
           [(file_path,
             output_filename existing
               (fst (splitext file_path) @ current_preset app @ ''_compressed.mp4''),
             current_preset app, None)]
     \<and> (tk_root app \<and> status_var app \<noteq> None \<longrightarrow>
          status_var (snd (choose_file file_path existing app)) =
            Some ''Error: Target MB must be a number'')"
  using assms(4)
  by (simp add: choose_file_def get_target_mb_invalid [OF assms(1-3)] Let_def truthy_def
      log_msg_queue log_msg_preset log_msg_status set_status_queue set_status_preset)
    (simp add: set_status_def)

lemma strip_10MB: "strip ''10MB'' = ''10MB''"
  by (simp add: strip_def is_space_def)

lemma int_of_string_10MB: "int_of_string (strip ''10MB'') = None"
  by (simp add: strip_10MB int_of_string_def is_digit_def digit_val_def)

theorem invalid_target_text_reported_and_job_enqueued_witness:
  "task_queue (snd (choose_file ''/v/a.mp4'' [] (app0\<lparr>targetEntry := Some ''10MB''\<rparr>))) =
     [(''/v/a.mp4'', ''/v/amedium_compressed.mp4'', ''medium'', None)]
   \<and> status_var (snd (choose_file ''/v/a.mp4'' [] (app0\<lparr>targetEntry := Some ''10MB''\<rparr>))) =
       Some ''Error: Target MB must be a number''"
proof -
  have a: "targetEntry (app0\<lparr>targetEntry := Some ''10MB''\<rparr>) = Some ''10MB''" by simp
  have b: "strip ''10MB'' \<noteq> []" by (simp add: strip_10MB)
  have c: "int_of_string (strip ''10MB'') = None" by (rule int_of_string_10MB)
  have d: "''/v/a.mp4'' \<noteq> []" by simp
  have s: "splitext ''/v/a.mp4'' = (''/v/a'', ''.mp4'')"
    by (simp add: splitext_def rfind_def Let_def)
  from invalid_target_text_reported_and_job_enqueued [OF a b c d, of "[]"]
  show ?thesis
    by (simp add: app0_def s output_filename_def)
qed

text \<open>
  The claim as stated has the job kept off the queue. With the text \<open>abc\<close> in the
  target entry the status shows the error and the queue, empty before, holds the job.
\<close>

theorem job_with_invalid_target_text_is_enqueued:
  "strip ''abc'' = ''abc'' \<and> int_of_string ''abc'' = None
   \<and> choose_file ''/v/a.mp4'' [] (app0\<lparr>targetEntry := Some ''abc''\<rparr>) =
      (Inr (),
       \<lparr>task_queue = [(''/v/a.mp4'', ''/v/amedium_compressed.mp4'', ''medium'', None)],
        current_preset = ''medium'', tk_root = True,
        status_var = Some ''Error: Target MB must be a number'',
        targetEntry = Some ''abc'',
        log_widget = Some [''Target size: CRF mode MB'']\<rparr>)"
proof -
  have st: "strip ''abc'' = ''abc''" by (simp add: strip_def is_space_def)
  have i: "int_of_string ''abc'' = None"
    by (simp add: int_of_string_def st is_digit_def)
  have s: "splitext ''/v/a.mp4'' = (''/v/a'', ''.mp4'')"
    by (simp add: splitext_def rfind_def Let_def)
  have "choose_file ''/v/a.mp4'' [] (app0\<lparr>targetEntry := Some ''abc''\<rparr>) =
      (Inr (),
       \<lparr>task_queue = [(''/v/a.mp4'', ''/v/amedium_compressed.mp4'', ''medium'', None)],
        current_preset = ''medium'', tk_root = True,
        status_var = Some ''Error: Target MB must be a number'',
        targetEntry = Some ''abc'',
        log_widget = Some [''Target size: CRF mode MB'']\<rparr>)"
    by (simp add: choose_file_def get_target_mb_def st i s output_filename_def app0_def
        set_status_def log_msg_def truthy_def Let_def)
  with st i show ?thesis by simp
qed


section \<open>The worker pool\<close>

lemma worker_body_queue:
  "worker_body e app w job = (app', w', out) \<Longrightarrow> task_queue app' = task_queue app"
  by (auto simp: worker_body_def Let_def set_status_queue log_msg_queue
      split: prod.splits sum.splits if_splits)

lemma in_flight_pop:
  "i < length rs \<Longrightarrow> rs ! i = None \<Longrightarrow>
     mset (in_flight (rs[i := Some job])) = add_mset job (mset (in_flight rs))
     \<and> length (in_flight (rs[i := Some job])) = Suc (length (in_flight rs))"
proof (induction rs arbitrary: i rule: in_flight.induct)
  case 1
  then show ?case by simp
next
  case (2 rs)
  then show ?case by (cases i) auto
next
  case (3 j rs)
  then show ?case by (cases i) auto
qed

lemma in_flight_complete:
  "i < length rs \<Longrightarrow> rs ! i = Some job \<Longrightarrow>
     mset (in_flight rs) = add_mset job (mset (in_flight (rs[i := None])))
     \<and> length (in_flight rs) = Suc (length (in_flight (rs[i := None])))"
proof (induction rs arbitrary: i rule: in_flight.induct)
  case 1
  then show ?case by simp
next
  case (2 rs)
  then show ?case by (cases i) auto
next
  case (3 j rs)
  then show ?case by (cases i) auto
qed

lemma in_flight_empty: "in_flight rs = [] \<Longrightarrow> i < length rs \<Longrightarrow> rs ! i = None"
  by (induction rs arbitrary: i rule: in_flight.induct) (auto simp: nth_Cons split: nat.splits)

lemma in_flight_nonempty:
  "in_flight rs \<noteq> [] \<Longrightarrow> \<exists>i job. i < length rs \<and> rs ! i = Some job"
proof (induction rs rule: in_flight.induct)
  case 1
  then show ?case by simp
next
  case (2 rs)
  then obtain i job where "i < length rs" "rs ! i = Some job" by auto
  then have "Suc i < length (None # rs) \<and> (None # rs) ! Suc i = Some job" by simp
  then show ?case by blast
next
  case (3 j rs)
  have "0 < length (Some j # rs) \<and> (Some j # rs) ! 0 = Some j" by simp
  then show ?case by blast
qed

lemma accounted_start: "accounted (start_workers n app w)"
proof -
  have "in_flight (replicate n None) = []" by (induction n) simp_all
  then show ?thesis by (simp add: accounted_def start_workers_def)
qed

lemma length_running_start: "length (running (start_workers n app w)) = n"
  by (simp add: start_workers_def)

lemma work_accounted: "work e s s' \<Longrightarrow> accounted s \<Longrightarrow> accounted s'"
proof (induction rule: work.induct)
  case (pop i s job rest)
  from in_flight_pop [OF pop(1,2), of job] pop(3,4) show ?case
    by (simp add: accounted_def)
next
  case (complete i s job app' disk' out)
  from in_flight_complete [OF complete(1,2)] worker_body_queue [OF complete(3)] complete(4)
  show ?case by (simp add: accounted_def)
qed

lemma work_length_running: "work e s s' \<Longrightarrow> length (running s') = length (running s)"
  by (induction rule: work.induct) simp_all

lemma work_pending: "work e s s' \<Longrightarrow> pending s' < pending s"
proof (induction rule: work.induct)
  case (pop i s job rest)
  from in_flight_pop [OF pop(1,2), of job] pop(3) show ?case
    by (simp add: pending_def)
next
  case (complete i s job app' disk' out)
  from in_flight_complete [OF complete(1,2)] worker_body_queue [OF complete(3)]
  show ?case by (simp add: pending_def)
qed

lemma step_accounted: "step e s s' \<Longrightarrow> accounted s \<Longrightarrow> accounted s'"
proof (induction rule: step.induct)
  case (worked s s')
  then show ?case by (simp add: work_accounted)
next
  case (put s job)
  then show ?case by (simp add: accounted_def submit_def)
qed

lemma step_length_running: "step e s s' \<Longrightarrow> length (running s') = length (running s)"
  by (induction rule: step.induct) (simp_all add: work_length_running submit_def)

lemma reachable_accounted:
  "(step e)\<^sup>*\<^sup>* (start_workers n app w) s \<Longrightarrow> accounted s \<and> length (running s) = n"
proof (induction rule: rtranclp_induct)
  case base
  show ?case by (simp add: accounted_start length_running_start)
next
  case (step s s')
  then show ?case by (simp add: step_accounted step_length_running)
qed

lemma work_possible:
  assumes "0 < length (running s)" and "\<not> quiescent s"
  shows "\<exists>s'. work e s s'"
proof (cases "in_flight (running s) = []")
  case True
  with assms(2) obtain job rest where q: "task_queue (gui s) = job # rest"
    by (auto simp: quiescent_def neq_Nil_conv)
  from in_flight_empty [OF True assms(1)] have "running s ! 0 = None" .
  from work.pop [OF assms(1) this q] show ?thesis by blast
next
  case False
  from in_flight_nonempty [OF False] obtain i job
    where i: "i < length (running s)" "running s ! i = Some job" by blast
  obtain app' disk' out where "worker_body e (gui s) (disk s) job = (app', disk', out)"
    by (cases "worker_body e (gui s) (disk s) job") auto
  from work.complete [OF i this] show ?thesis by blast
qed

text \<open>
  Claim C9. From the start of two workers, or of any positive number of them, over any
  interleaving of their steps and of submissions: every submitted job is at each moment
  in exactly one place, on the queue, with one worker, or finished with its outcome,
  which is \<open>Succeeded\<close> or \<open>Failed\<close>. Once the queue is drained and every worker waits,
  the finished jobs are the submitted ones, each once, so none is left queued or
  running and none was processed twice. Until then some worker can take a step, and
  every step of a worker lowers the work still to do, so the workers do drain the
  queue.
\<close>

theorem every_job_finishes_once:
  assumes "0 < n" and "(step e)\<^sup>*\<^sup>* (start_workers n app w) s"
  shows "mset (task_queue (gui s)) + mset (in_flight (running s))
           + mset (map (\<lambda>(i, job, out). job) (finished s)) = mset (submitted s)
     \<and> (quiescent s \<longrightarrow> mset (map (\<lambda>(i, job, out). job) (finished s)) = mset (submitted s))
     \<and> (\<not> quiescent s \<longrightarrow> (\<exists>s'. work e s s'))
     \<and> (\<forall>s'. work e s s' \<longrightarrow> pending s' < pending s)"
proof -
  from reachable_accounted [OF assms(2)]
  have acc: "accounted s" and len: "length (running s) = n" by simp_all
  from acc have 1: "mset (task_queue (gui s)) + mset (in_flight (running s))
           + mset (map (\<lambda>(i, job, out). job) (finished s)) = mset (submitted s)"
    by (simp add: accounted_def)
  then have 2: "quiescent s \<longrightarrow>
      mset (map (\<lambda>(i, job, out). job) (finished s)) = mset (submitted s)"
    by (auto simp: quiescent_def)
  from len assms(1) have "0 < length (running s)" by simp
  then have 3: "\<not> quiescent s \<longrightarrow> (\<exists>s'. work e s s')"
    using work_possible by blast
  have 4: "\<forall>s'. work e s s' \<longrightarrow> pending s' < pending s"
    using work_pending by blast
  from 1 2 3 4 show ?thesis by blast
qed

lemma worker_body_ultra:
  "worker_body env_ok (gui pool_popped) (disk pool_popped) job_ultra =
     (\<lparr>task_queue = [], current_preset = ''medium'', tk_root = True,
       status_var = Some ''Idle'', targetEntry = Some ''10'',
       log_widget = Some [''Compressing in.mp4 to out.mp4 with preset '' @ [CHR 0x27]
                            @ ''ultra'' @ [CHR 0x27] @ '' and target None MB'',
                          ''Error compressing in.mp4: KeyError'']\<rparr>,
      world0, Failed (KeyError ''ultra''))"
proof -
  have p: "get_preset ''ultra'' = Inl (KeyError ''ultra'')"
    by (rule get_preset_unknown) simp_all
  show ?thesis
    by (simp add: worker_body_def job_ultra_def pool_popped_def pool_start_def start_workers_def
        app0_def compress_video_error_preset [OF p] set_status_def log_msg_def Let_def)
qed

lemma pool_done_value:
  "pool_done =
     \<lparr>gui = \<lparr>task_queue = [], current_preset = ''medium'', tk_root = True,
              status_var = Some ''Idle'', targetEntry = Some ''10'',
              log_widget = Some [''Compressing in.mp4 to out.mp4 with preset '' @ [CHR 0x27]
                                   @ ''ultra'' @ [CHR 0x27] @ '' and target None MB'',
                                 ''Error compressing in.mp4: KeyError'']\<rparr>,
      disk = world0, running = [None, None],
      finished = [(0, job_ultra, Failed (KeyError ''ultra''))],
      submitted = [job_ultra]\<rparr>"
  unfolding pool_done_def worker_body_ultra
  by (simp add: pool_popped_def pool_start_def start_workers_def numeral_2_eq_2)

theorem every_job_finishes_once_witness:
  "quiescent pool_done
   \<and> finished pool_done = [(0, job_ultra, Failed (KeyError ''ultra''))]
   \<and> mset (map (\<lambda>(i, job, out). job) (finished pool_done)) = mset (submitted pool_done)
   \<and> submitted pool_done = [job_ultra]"
proof -
  have w1: "work env_ok pool_start pool_popped"
    unfolding pool_popped_def
    by (rule work.pop [where rest = "[]"]) (simp_all add: pool_start_def start_workers_def)
  have w2: "work env_ok pool_popped pool_done"
    unfolding pool_done_def worker_body_ultra prod.case
    by (rule work.complete [OF _ _ worker_body_ultra])
      (simp_all add: pool_popped_def pool_start_def start_workers_def)
  have r: "(step env_ok)\<^sup>*\<^sup>* (start_workers 2 (app0\<lparr>task_queue := [job_ultra]\<rparr>) world0) pool_done"
    using step.worked [OF w1] step.worked [OF w2] by (simp add: pool_start_def)
  have q: "quiescent pool_done"
    by (simp add: pool_done_value quiescent_def)
  have f: "finished pool_done = [(0, job_ultra, Failed (KeyError ''ultra''))]"
    and s: "submitted pool_done = [job_ultra]"
    by (simp_all add: pool_done_value)
  have "(0::nat) < 2" by simp
  from every_job_finishes_once [OF this r] q
  have "mset (map (\<lambda>(i, job, out). job) (finished pool_done)) = mset (submitted pool_done)"
    by simp
  with q f s show ?thesis by simp
qed

end
